theory Spec2Isabelle
  imports Main "HOL-Library.AList" "HOL-Library.Sublist"
begin


section \<open>The REST service (Archivos/APP.py)\<close>

subsection \<open>Values, rows and the storage\<close>

text \<open>
  A JSON scalar of a request body and a column value of a row are the same thing to the
  handlers, which pass one to the other unchanged. A row (psycopg2's RealDictRow) and a
  JSON object are Python dicts: association lists from names to values.
\<close>

datatype val = VNull | VBool bool | VInt int | VStr string

type_synonym row = "(string \<times> val) list"

text \<open>
  The SQL statements the handlers send, one constructor per statement text of APP.py,
  holding the statement's parameters.
\<close>

datatype sql =
    SelectArtist int
  | SelectAlbum int
  | SelectProducer int
  | InsertArtist val val val val val val
  | UpdateArtist "(string \<times> val) list" int
  | UpdateAlbum "(string \<times> val) list" int
  | DeleteArtist int
  | CountArtists
  | CountAlbums
  | CountSongs
  | CountHits
  | SumStreams
  | CountActiveArtists

text \<open>
  The storage as the service sees it: the five tables its statements read and write, the
  sequence behind \<open>artist_id\<close>, and the two ways the storage can fail a request. Field
  \<open>reachable\<close> says whether \<open>psycopg2.connect\<close> succeeds; \<open>fault\<close> gives, for a statement,
  the message of the exception \<open>cur.execute\<close> raises on it (a constraint of the schema, which
  is not part of the sources), or \<open>None\<close> when it runs.
\<close>

record store =
  reachable :: bool
  fault :: "sql \<Rightarrow> string option"
  artist :: "row list"
  album :: "row list"
  producer :: "row list"
  song :: "row list"
  contract :: "row list"
  artist_seq :: int

definition col :: "row \<Rightarrow> string \<Rightarrow> val" where
  "col r c = (case map_of r c of Some v \<Rightarrow> v | None \<Rightarrow> VNull)"

definition project :: "string list \<Rightarrow> row \<Rightarrow> row" where
  "project cs r = map (\<lambda>c. (c, col r c)) cs"

definition has_id :: "string \<Rightarrow> int \<Rightarrow> row \<Rightarrow> bool" where
  "has_id k i r = (col r k = VInt i)"

definition artist_cols :: "string list" where
  "artist_cols = [''artist_id'', ''name'', ''genre'', ''contract_date'', ''contract_status'',
     ''biography'', ''nationality'']"

definition producer_cols :: "string list" where
  "producer_cols = [''producer_id'', ''name'', ''specialty'', ''years_experience'', ''email'',
     ''phone'']"

text \<open>
  \<open>get_album\<close> selects from \<open>album a LEFT JOIN producer p ON a.producer_id = p.producer_id\<close>:
  one result row per matching producer, and one with a NULL \<open>producer_name\<close> when there is
  none (NULL never equals NULL).
\<close>

definition album_joined :: "row \<Rightarrow> val \<Rightarrow> row" where
  "album_joined a pname =
     project [''album_id'', ''title'', ''release_date'', ''producer_id''] a
     @ [(''producer_name'', pname)]
     @ project [''status'', ''genre'', ''label_name''] a"

definition album_left_join :: "row list \<Rightarrow> row \<Rightarrow> row list" where
  "album_left_join ps a =
     (let ms = filter (\<lambda>p. col a ''producer_id'' \<noteq> VNull
                           \<and> col p ''producer_id'' = col a ''producer_id'') ps
      in if ms = [] then [album_joined a VNull]
         else map (\<lambda>p. album_joined a (col p ''name'')) ms)"

text \<open>\<open>UPDATE t SET c1 = v1, ... WHERE id = i\<close> on one row.\<close>

fun assign :: "(string \<times> val) list \<Rightarrow> row \<Rightarrow> row" where
  "assign [] r = r"
| "assign ((c, v) # cvs) r = assign cvs (AList.update c v r)"

definition update_where :: "string \<Rightarrow> int \<Rightarrow> (string \<times> val) list \<Rightarrow> row list \<Rightarrow> row list" where
  "update_where k i cvs rs = map (\<lambda>r. if has_id k i r then assign cvs r else r) rs"

text \<open>\<open>SUM(streams_count)\<close>: NULL over no non-NULL value, their sum otherwise.\<close>

definition int_values :: "string \<Rightarrow> row list \<Rightarrow> int list" where
  "int_values c rs = concat (map (\<lambda>r. case col r c of VInt n \<Rightarrow> [n] | _ \<Rightarrow> []) rs)"

definition sql_sum :: "string \<Rightarrow> row list \<Rightarrow> val" where
  "sql_sum c rs = (if int_values c rs = [] then VNull else VInt (sum_list (int_values c rs)))"

text \<open>
  \<open>COUNT(DISTINCT a.artist_id) FROM artist a JOIN contract c ON a.artist_id = c.artist_id
  AND c.status = 'active'\<close>.
\<close>

definition active_artist_ids :: "store \<Rightarrow> int list" where
  "active_artist_ids s =
     remdups (concat (map (\<lambda>a. case col a ''artist_id'' of
          VInt i \<Rightarrow> (if list_ex (\<lambda>c. col c ''artist_id'' = VInt i
                                      \<and> col c ''status'' = VStr ''active'') (contract s)
                      then [i] else [])
        | _ \<Rightarrow> []) (artist s)))"

definition count_row :: "nat \<Rightarrow> row list" where
  "count_row n = [[(''count'', VInt (int n))]]"

text \<open>
  What a statement that runs does: the storage afterwards, the rows it returns and
  \<open>cur.rowcount\<close>.
\<close>

fun run :: "store \<Rightarrow> sql \<Rightarrow> store \<times> row list \<times> nat" where
  "run s (SelectArtist i) =
     (let rs = map (project artist_cols) (filter (has_id ''artist_id'' i) (artist s))
      in (s, rs, length rs))"
| "run s (SelectAlbum i) =
     (let rs = concat (map (album_left_join (producer s))
                 (filter (has_id ''album_id'' i) (album s)))
      in (s, rs, length rs))"
| "run s (SelectProducer i) =
     (let rs = map (project producer_cols) (filter (has_id ''producer_id'' i) (producer s))
      in (s, rs, length rs))"
| "run s (InsertArtist n g d st b na) =
     (let i = artist_seq s;
          r = [(''artist_id'', VInt i), (''name'', n), (''genre'', g), (''contract_date'', d),
               (''contract_status'', st), (''biography'', b), (''nationality'', na)]
      in (s\<lparr>artist := artist s @ [r], artist_seq := i + 1\<rparr>, [[(''artist_id'', VInt i)]], 1))"
| "run s (UpdateArtist cvs i) =
     (s\<lparr>artist := update_where ''artist_id'' i cvs (artist s)\<rparr>, [],
      length (filter (has_id ''artist_id'' i) (artist s)))"
| "run s (UpdateAlbum cvs i) =
     (s\<lparr>album := update_where ''album_id'' i cvs (album s)\<rparr>, [],
      length (filter (has_id ''album_id'' i) (album s)))"
| "run s (DeleteArtist i) =
     (s\<lparr>artist := filter (\<lambda>r. \<not> has_id ''artist_id'' i r) (artist s)\<rparr>, [],
      length (filter (has_id ''artist_id'' i) (artist s)))"
| "run s CountArtists = (s, count_row (length (artist s)), 1)"
| "run s CountAlbums = (s, count_row (length (album s)), 1)"
| "run s CountSongs = (s, count_row (length (song s)), 1)"
| "run s CountHits =
     (s, count_row (length (filter (\<lambda>r. col r ''is_hit'' = VBool True) (song s))), 1)"
| "run s SumStreams = (s, [[(''total'', sql_sum ''streams_count'' (song s))]], 1)"
| "run s CountActiveArtists = (s, count_row (length (active_artist_ids s)), 1)"

text \<open>
  \<open>cur.execute\<close> followed by \<open>conn.commit()\<close>, or the exception and \<open>conn.rollback()\<close>: a
  statement that raises leaves the storage as it was.
\<close>

definition execute :: "store \<Rightarrow> sql \<Rightarrow> string + (store \<times> row list \<times> nat)" where
  "execute s q = (case fault s q of Some msg \<Rightarrow> Inl msg | None \<Rightarrow> Inr (run s q))"

fun is_select :: "sql \<Rightarrow> bool" where
  "is_select (InsertArtist n g d st b na) = False"
| "is_select (UpdateArtist cvs i) = False"
| "is_select (UpdateAlbum cvs i) = False"
| "is_select (DeleteArtist i) = False"
| "is_select q = True"

subsection \<open>Helpers: \<open>get_db_connection\<close> and \<open>execute_query\<close>\<close>

text \<open>The connection, or Python's \<open>None\<close> when connecting raises (APP.py:39-46).\<close>

definition get_db_connection :: "store \<Rightarrow> store option" where
  "get_db_connection s = (if reachable s then Some s else None)"

text \<open>
  What \<open>execute_query\<close> returns (APP.py:48-77): \<open>None\<close>, one row (\<open>fetchone\<close>), the rows
  (\<open>fetchall\<close>) or the row count. \<open>None\<close> is returned without a connection, after an
  exception, and by \<open>fetchone\<close> when the query selected no row.
\<close>

datatype pyres = PyNone | PyRow row | PyRows "row list" | PyCount nat

definition execute_query :: "store \<Rightarrow> sql \<Rightarrow> bool \<Rightarrow> store \<times> pyres" where
  "execute_query s q fetch_one =
     (case get_db_connection s of
        None \<Rightarrow> (s, PyNone)
      | Some conn \<Rightarrow>
          (case execute conn q of
             Inl e \<Rightarrow> (s, PyNone)
           | Inr (s', rs, n) \<Rightarrow>
               if is_select q then
                 (if fetch_one then (case rs of [] \<Rightarrow> (s', PyNone) | r # _ \<Rightarrow> (s', PyRow r))
                  else (s', PyRows rs))
               else (s', PyCount n)))"

subsection \<open>Responses\<close>

datatype body = Obj row | Arr "row list"

type_synonym response = "nat \<times> body"

definition status :: "store \<times> response \<Rightarrow> nat" where
  "status x = fst (snd x)"

definition payload :: "store \<times> response \<Rightarrow> body" where
  "payload x = snd (snd x)"

definition after :: "store \<times> response \<Rightarrow> store" where
  "after x = fst x"

text \<open>The accented letters of the messages, as their UTF-8 bytes.\<close>

definition o_acute :: string where
  "o_acute = [CHR 0xC3, CHR 0xB3]"

definition A_acute :: string where
  "A_acute = [CHR 0xC3, CHR 0x81]"

definition error_body :: "string \<Rightarrow> body" where
  "error_body msg = Obj [(''error'', VStr msg)]"

definition message_body :: "string \<Rightarrow> body" where
  "message_body msg = Obj [(''message'', VStr msg)]"

text \<open>
  Flask's answer to an exception no handler catches (\<open>app.errorhandler(500)\<close>,
  APP.py:514-516).
\<close>

definition internal_error :: response where
  "internal_error = (500, error_body ''Error interno del servidor'')"

subsection \<open>Get by id\<close>

text \<open>
  APP.py:97-108, 227-240 and 424-435. \<open>dict(result)\<close> of anything but a row raises, which
  \<open>fetch_one=True\<close> on a SELECT never returns.
\<close>

definition get_artist :: "store \<Rightarrow> int \<Rightarrow> store \<times> response" where
  "get_artist s artist_id =
     (case execute_query s (SelectArtist artist_id) True of
        (s', PyNone) \<Rightarrow> (s', 404, error_body ''Artista no encontrado'')
      | (s', PyRow r) \<Rightarrow> (s', 200, Obj r)
      | (s', _) \<Rightarrow> (s', internal_error))"

definition get_album :: "store \<Rightarrow> int \<Rightarrow> store \<times> response" where
  "get_album s album_id =
     (case execute_query s (SelectAlbum album_id) True of
        (s', PyNone) \<Rightarrow> (s', 404, error_body (A_acute @ ''lbum no encontrado''))
      | (s', PyRow r) \<Rightarrow> (s', 200, Obj r)
      | (s', _) \<Rightarrow> (s', internal_error))"

definition get_producer :: "store \<Rightarrow> int \<Rightarrow> store \<times> response" where
  "get_producer s producer_id =
     (case execute_query s (SelectProducer producer_id) True of
        (s', PyNone) \<Rightarrow> (s', 404, error_body ''Productor no encontrado'')
      | (s', PyRow r) \<Rightarrow> (s', 200, Obj r)
      | (s', _) \<Rightarrow> (s', internal_error))"

subsection \<open>Create\<close>

text \<open>\<open>field in data\<close>, \<open>data[field]\<close> and \<open>data.get(field, default)\<close> on a JSON object.\<close>

definition has_field :: "row \<Rightarrow> string \<Rightarrow> bool" where
  "has_field data f = (map_of data f \<noteq> None)"

definition dict_get :: "row \<Rightarrow> string \<Rightarrow> val \<Rightarrow> val" where
  "dict_get data f d = (case map_of data f of Some v \<Rightarrow> v | None \<Rightarrow> d)"

definition connection_error :: response where
  "connection_error = (500, error_body (''Error de conexi'' @ o_acute @ ''n''))"

text \<open>
  APP.py:110-149. The INSERT returns the new \<open>artist_id\<close>; were \<open>fetchone\<close> to return
  \<open>None\<close>, subscripting it would raise inside the \<open>try\<close>, after the commit.
\<close>

definition artist_required :: "string list" where
  "artist_required = [''name'', ''genre'', ''contract_date'', ''nationality'']"

definition artist_insert :: "row \<Rightarrow> sql" where
  "artist_insert data =
     InsertArtist (col data ''name'') (col data ''genre'') (col data ''contract_date'')
       (dict_get data ''contract_status'' (VStr ''active''))
       (dict_get data ''biography'' (VStr []))
       (col data ''nationality'')"

definition create_artist :: "store \<Rightarrow> row \<Rightarrow> store \<times> response" where
  "create_artist s data =
     (if \<not> list_all (has_field data) artist_required
      then (s, 400, error_body ''Campos requeridos faltantes'')
      else
        case get_db_connection s of
             None \<Rightarrow> (s, connection_error)
           | Some conn \<Rightarrow>
               (case execute conn (artist_insert data) of
                  Inl e \<Rightarrow> (s, 400, error_body e)
                | Inr (s', rs, n) \<Rightarrow>
                    (case rs of
                       [] \<Rightarrow> (s', 400, error_body ''NoneType object is not subscriptable'')
                     | r # _ \<Rightarrow>
                         (s', 201, Obj [(''artist_id'', col r ''artist_id''),
                                        (''message'', VStr ''Artista creado exitosamente'')]))))"

subsection \<open>Update\<close>

definition artist_allowed :: "string list" where
  "artist_allowed = [''name'', ''genre'', ''contract_status'', ''biography'', ''nationality'']"

definition album_allowed :: "string list" where
  "album_allowed = [''title'', ''status'', ''genre'', ''label_name'']"

text \<open>
  The loop over \<open>allowed_fields\<close> that fills \<open>updates\<close> and \<open>params\<close> (APP.py:157-162,
  288-293): one \<open>field = %s\<close> with its parameter per allow-listed field of the payload.
\<close>

fun set_clauses :: "string list \<Rightarrow> row \<Rightarrow> (string \<times> val) list" where
  "set_clauses [] data = []"
| "set_clauses (f # fs) data =
     (case map_of data f of
        Some v \<Rightarrow> (f, v) # set_clauses fs data
      | None \<Rightarrow> set_clauses fs data)"

definition nothing_to_update :: response where
  "nothing_to_update = (400, error_body ''No hay campos para actualizar'')"

text \<open>APP.py:151-184.\<close>

definition update_artist :: "store \<Rightarrow> row \<Rightarrow> int \<Rightarrow> store \<times> response" where
  "update_artist s data artist_id =
     (let updates = set_clauses artist_allowed data in
      if updates = [] then (s, nothing_to_update)
      else case get_db_connection s of
             None \<Rightarrow> (s, connection_error)
           | Some conn \<Rightarrow>
               (case execute conn (UpdateArtist updates artist_id) of
                  Inl e \<Rightarrow> (s, 400, error_body e)
                | Inr (s', rs, n) \<Rightarrow>
                    (s', 200, message_body ''Artista actualizado exitosamente'')))"

text \<open>APP.py:282-315.\<close>

definition update_album :: "store \<Rightarrow> row \<Rightarrow> int \<Rightarrow> store \<times> response" where
  "update_album s data album_id =
     (let updates = set_clauses album_allowed data in
      if updates = [] then (s, nothing_to_update)
      else case get_db_connection s of
             None \<Rightarrow> (s, connection_error)
           | Some conn \<Rightarrow>
               (case execute conn (UpdateAlbum updates album_id) of
                  Inl e \<Rightarrow> (s, 400, error_body e)
                | Inr (s', rs, n) \<Rightarrow>
                    (s', 200, message_body (A_acute @ ''lbum actualizado exitosamente''))))"

subsection \<open>Delete\<close>

text \<open>APP.py:186-205. The handler never reads \<open>cur.rowcount\<close>.\<close>

definition delete_artist :: "store \<Rightarrow> int \<Rightarrow> store \<times> response" where
  "delete_artist s artist_id =
     (case get_db_connection s of
        None \<Rightarrow> (s, connection_error)
      | Some conn \<Rightarrow>
          (case execute conn (DeleteArtist artist_id) of
             Inl e \<Rightarrow> (s, 400, error_body e)
           | Inr (s', rs, n) \<Rightarrow>
               (s', 200, message_body ''Artista eliminado exitosamente'')))"

subsection \<open>Statistics\<close>

text \<open>Python's truth value of a result of \<open>execute_query\<close> and of a column value.\<close>

fun py_truthy :: "pyres \<Rightarrow> bool" where
  "py_truthy PyNone = False"
| "py_truthy (PyRow r) = (r \<noteq> [])"
| "py_truthy (PyRows rs) = (rs \<noteq> [])"
| "py_truthy (PyCount n) = (n \<noteq> 0)"

fun val_truthy :: "val \<Rightarrow> bool" where
  "val_truthy VNull = False"
| "val_truthy (VBool b) = b"
| "val_truthy (VInt n) = (n \<noteq> 0)"
| "val_truthy (VStr x) = (x \<noteq> [])"

text \<open>\<open>result[key]\<close>, which every result of the statistics queries supports.\<close>

fun subscript :: "pyres \<Rightarrow> string \<Rightarrow> val" where
  "subscript (PyRow r) k = col r k"
| "subscript x k = VNull"

text \<open>\<open>result['count'] if result else 0\<close>.\<close>

definition count_or_zero :: "pyres \<Rightarrow> val" where
  "count_or_zero x = (if py_truthy x then subscript x ''count'' else VInt 0)"

text \<open>\<open>result['total'] if result and result['total'] else 0\<close>.\<close>

definition total_or_zero :: "pyres \<Rightarrow> val" where
  "total_or_zero x =
     (if py_truthy x \<and> val_truthy (subscript x ''total'') then subscript x ''total''
      else VInt 0)"

text \<open>APP.py:441-474: six queries, each on a connection of its own.\<close>

definition get_stats :: "store \<Rightarrow> store \<times> response" where
  "get_stats s =
     (let (s1, artists) = execute_query s CountArtists True;
          (s2, albums) = execute_query s1 CountAlbums True;
          (s3, songs) = execute_query s2 CountSongs True;
          (s4, hits) = execute_query s3 CountHits True;
          (s5, streams) = execute_query s4 SumStreams True;
          (s6, active) = execute_query s5 CountActiveArtists True
      in (s6, 200, Obj [(''total_artists'', count_or_zero artists),
                        (''total_albums'', count_or_zero albums),
                        (''total_songs'', count_or_zero songs),
                        (''total_hits'', count_or_zero hits),
                        (''total_streams'', total_or_zero streams),
                        (''active_artists'', count_or_zero active)]))"

section \<open>The data generator (Archivos/SEED_DATA.py)\<close>

subsection \<open>Statements and the database\<close>

datatype table =
    Artist | Producer | Studio | Album | Song | RecordingSession | Staff | Engineer | Manager
  | Distribution | SongDistribution | Contract | ArtistAlbum

text \<open>
  A parameter of a statement. \<open>PFake kind n\<close> is the text Faker makes of the given kind
  from its draw \<open>n\<close>; \<open>PUniform a b n\<close> is \<open>round(random.uniform(a, b), 2)\<close> from the draw
  \<open>n\<close>; a date is a day number.
\<close>

datatype param =
    PInt int
  | PStr string
  | PBool bool
  | PDate int
  | PTime int int
  | PUniform int int nat
  | PFake string "nat list"

text \<open>
  The statements the generator sends: \<open>Insert t ps\<close> is the INSERT into table \<open>t\<close> with the
  parameter tuple \<open>ps\<close> (with the RETURNING or ON CONFLICT DO NOTHING clause the source gives
  the statement of that table), the two ALTER TABLE statements on the trigger
  \<open>trg_check_hit_distributions\<close>, and \<open>SELECT album_id, song_id FROM song ORDER BY RANDOM()
  LIMIT 1\<close>.
\<close>

datatype stmt =
    Truncate table
  | Insert table "param list"
  | DisableTrigger
  | EnableTrigger
  | SelectRandomSong

text \<open>
  What the run depends on and does not change: the two seeded generators (\<open>random.seed(42)\<close>
  and \<open>Faker.seed(42)\<close>, each a fixed sequence of draws, \<open>rand e k\<close> being the draw of the
  \<open>k\<close>-th call), the day of the run, whether \<open>psycopg2.connect\<close> succeeds, on which of the
  statements it receives the storage raises (\<open>raises e k\<close> for the \<open>k\<close>-th), and the values
  of PostgreSQL's own \<open>RANDOM()\<close>, which no seed of the program reaches.
\<close>

record env =
  rand :: "nat \<Rightarrow> nat"
  faker :: "nat \<Rightarrow> nat"
  today :: int
  connects :: bool
  raises :: "nat \<Rightarrow> bool"
  db_random :: "nat \<Rightarrow> nat"

text \<open>
  The part of the database the generator's statements observe: the number of statements
  received, the next value of each table's identity sequence, the keys of the song rows,
  and whether the trigger is enabled. The schema is not part of the sources: what its
  constraints and triggers reject is \<open>raises\<close>.
\<close>

record pg =
  clock :: nat
  serial :: "table \<Rightarrow> int"
  song_keys :: "(int \<times> int) list"
  hit_trigger :: bool

datatype reply = Failed | NoRows | Rows "int list list"

fun song_key :: "param list \<Rightarrow> (int \<times> int) option" where
  "song_key (PInt a # PInt n # ps) = Some (a, n)"
| "song_key ps = None"

definition returns_id :: "table \<Rightarrow> bool" where
  "returns_id t = (t \<in> {Artist, Producer, Studio, Album, Staff, Distribution})"

text \<open>A statement that runs.\<close>

fun pg_run :: "env \<Rightarrow> pg \<Rightarrow> stmt \<Rightarrow> reply \<times> pg" where
  "pg_run e d (Truncate t) =
     (NoRows, d\<lparr>serial := (serial d)(t := 1),
                song_keys := (if t = Song then [] else song_keys d)\<rparr>)"
| "pg_run e d (Insert t ps) =
     (if returns_id t then (Rows [[serial d t]], d\<lparr>serial := (serial d)(t := serial d t + 1)\<rparr>)
      else if t = Song then
        (case song_key ps of
           Some k \<Rightarrow> (NoRows, if k \<in> set (song_keys d) then d
                                else d\<lparr>song_keys := song_keys d @ [k]\<rparr>)
         | None \<Rightarrow> (NoRows, d))
      else (NoRows, d))"
| "pg_run e d DisableTrigger = (NoRows, d\<lparr>hit_trigger := False\<rparr>)"
| "pg_run e d EnableTrigger = (NoRows, d\<lparr>hit_trigger := True\<rparr>)"
| "pg_run e d SelectRandomSong =
     (if song_keys d = [] then (Rows [], d)
      else (case song_keys d ! (db_random e (clock d) mod length (song_keys d)) of
              (a, n) \<Rightarrow> (Rows [[a, n]], d)))"

text \<open>A statement received: it raises and changes nothing, or it runs.\<close>

definition pg_exec :: "env \<Rightarrow> pg \<Rightarrow> stmt \<Rightarrow> reply \<times> pg" where
  "pg_exec e d q =
     (if raises e (clock d) then (Failed, d\<lparr>clock := Suc (clock d)\<rparr>)
      else (case pg_run e d q of (r, d') \<Rightarrow> (r, d'\<lparr>clock := Suc (clock d)\<rparr>)))"

subsection \<open>The generator's state and control flow\<close>

text \<open>
  \<open>DataGenerator\<close> (SEED_DATA.py:38-49): the connection and the lists of generated keys, with
  the number of calls made so far to each seeded generator.
\<close>

record gen =
  db :: pg
  rand_calls :: nat
  fake_calls :: nat
  artist_ids :: "int list"
  producer_ids :: "int list"
  studio_ids :: "int list"
  album_ids :: "int list"
  distribution_ids :: "int list"
  staff_ids :: "int list"
  engineer_ids :: "int list"
  manager_ids :: "int list"

definition DataGenerator :: "pg \<Rightarrow> gen" where
  "DataGenerator d = \<lparr>db = d, rand_calls = 0, fake_calls = 0, artist_ids = [],
     producer_ids = [], studio_ids = [], album_ids = [], distribution_ids = [],
     staff_ids = [], engineer_ids = [], manager_ids = []\<rparr>"

datatype exn = DbError | IndexError | TypeError | ValueError

text \<open>
  How a piece of the program ends: it returns, or an exception leaves it. Either way it
  has sent statements, in the order listed, and has left a state.
\<close>

datatype outcome = Done "stmt list" gen | Raised exn "stmt list" gen

fun sent :: "outcome \<Rightarrow> stmt list" where
  "sent (Done tr s) = tr"
| "sent (Raised x tr s) = tr"

fun final :: "outcome \<Rightarrow> gen" where
  "final (Done tr s) = s"
| "final (Raised x tr s) = s"

fun returned :: "outcome \<Rightarrow> bool" where
  "returned (Done tr s) = True"
| "returned (Raised x tr s) = False"

text \<open>Sequential composition: what follows runs only after a return.\<close>

fun seq :: "outcome \<Rightarrow> (gen \<Rightarrow> outcome) \<Rightarrow> outcome" where
  "seq (Done tr s) f =
     (case f s of Done tr' s' \<Rightarrow> Done (tr @ tr') s' | Raised x tr' s' \<Rightarrow> Raised x (tr @ tr') s')"
| "seq (Raised x tr s) f = Raised x tr s"

text \<open>\<open>try: ... except: pass\<close> (or a handler that only logs).\<close>

fun swallow :: "outcome \<Rightarrow> outcome" where
  "swallow (Done tr s) = Done tr s"
| "swallow (Raised x tr s) = Done tr s"

text \<open>\<open>for x in xs: body\<close>.\<close>

fun for_each :: "('a \<Rightarrow> gen \<Rightarrow> outcome) \<Rightarrow> 'a list \<Rightarrow> gen \<Rightarrow> outcome" where
  "for_each body [] s = Done [] s"
| "for_each body (x # xs) s = seq (body x s) (for_each body xs)"

text \<open>A block of calls, one after the other.\<close>

fun chain :: "(gen \<Rightarrow> outcome) list \<Rightarrow> gen \<Rightarrow> outcome" where
  "chain [] s = Done [] s"
| "chain (f # fs) s = seq (f s) (chain fs)"

text \<open>
  \<open>DataGenerator.execute_query\<close> (SEED_DATA.py:69-86): the rows when the statement returns any, \<open>None\<close>
  when it returns none, and the exception re-raised after the rollback.
\<close>

definition seed_execute_query :: "env \<Rightarrow> stmt \<Rightarrow> gen \<Rightarrow> reply \<times> gen" where
  "seed_execute_query e q s = (case pg_exec e (db s) q of (r, d) \<Rightarrow> (r, s\<lparr>db := d\<rparr>))"

text \<open>\<open>result[0][0]\<close> of what \<open>execute_query\<close> returned.\<close>

fun first_id :: "reply \<Rightarrow> exn + int" where
  "first_id Failed = Inl DbError"
| "first_id NoRows = Inl TypeError"
| "first_id (Rows []) = Inl IndexError"
| "first_id (Rows ([] # rs)) = Inl IndexError"
| "first_id (Rows ((x # xs) # rs)) = Inr x"

text \<open>
  An INSERT whose exception is not caught, with \<open>ids.append(result[0][0])\<close> after it.
\<close>

definition insert_returning :: "env \<Rightarrow> table \<Rightarrow> param list \<Rightarrow> (int \<Rightarrow> gen \<Rightarrow> gen) \<Rightarrow> gen \<Rightarrow> outcome" where
  "insert_returning e t ps keep s =
     (case seed_execute_query e (Insert t ps) s of
        (r, s') \<Rightarrow>
          (case first_id r of
             Inl x \<Rightarrow> Raised x [Insert t ps] s'
           | Inr i \<Rightarrow> Done [Insert t ps] (keep i s')))"

text \<open>
  A statement inside \<open>try: ... except: pass\<close>, with what follows it inside the \<open>try\<close> when it
  did not raise.
\<close>

definition attempt :: "env \<Rightarrow> stmt \<Rightarrow> (gen \<Rightarrow> gen) \<Rightarrow> gen \<Rightarrow> outcome" where
  "attempt e q on_success s =
     (case seed_execute_query e q s of
        (Failed, s') \<Rightarrow> Done [q] s'
      | (r, s') \<Rightarrow> Done [q] (on_success s'))"

subsection \<open>Drawn values\<close>

definition pick :: "'a list \<Rightarrow> nat \<Rightarrow> 'a" where
  "pick xs n = xs ! (n mod length xs)"

definition randint :: "int \<Rightarrow> int \<Rightarrow> nat \<Rightarrow> int" where
  "randint a b n = a + int (n mod nat (b - a + 1))"

text \<open>\<open>fake.date_between(start_date='-Ny')\<close>: a day of the last \<open>N\<close> years, up to today.\<close>

definition date_between :: "env \<Rightarrow> nat \<Rightarrow> nat \<Rightarrow> int" where
  "date_between e years n = today e - int (n mod (365 * years + 1))"

definition drew :: "nat \<Rightarrow> nat \<Rightarrow> gen \<Rightarrow> gen" where
  "drew r f s = s\<lparr>rand_calls := rand_calls s + r, fake_calls := fake_calls s + f\<rparr>"

definition n_tilde :: string where "n_tilde = [CHR 0xC3, CHR 0xB1]"
definition a_acute :: string where "a_acute = [CHR 0xC3, CHR 0xA1]"
definition i_acute :: string where "i_acute = [CHR 0xC3, CHR 0xAD]"

definition genres :: "string list" where
  "genres = [''pop'', ''rock'', ''hip-hop'', ''jazz'', ''classical'', ''electronic'', ''reggae'',
     ''country'', ''folk'', ''other'']"

definition nationalities :: "string list" where
  "nationalities = [''Espa'' @ n_tilde @ ''a'', ''Estados Unidos'', ''Reino Unido'', ''Francia'',
     ''Alemania'', ''Italia'', ''Jap'' @ o_acute @ ''n'', ''Brasil'', ''Canad'' @ a_acute,
     ''Australia'']"

definition specialties :: "string list" where
  "specialties = [''Pop'', ''Rock'', ''Hip-Hop'', ''Jazz'', ''Electronic'', ''Classical'',
     ''Reggae'', ''Country'']"

definition locations :: "string list" where
  "locations = [''Madrid'', ''Barcelona'', ''Valencia'', ''Sevilla'', ''Bilbao'',
     ''M'' @ a_acute @ ''laga'', ''Murcia'', ''Palma'', ''Las Palmas'', ''Alicante'']"

definition equipment_list :: "string list" where
  "equipment_list = [''SSL 4000E, Neve 1073, Telefunken U47'',
     ''Neve 8088, API 2500, Manley ELOP'', ''Studer A800, Ampex ATR102, Otari MX80'',
     ''ProTools HDX, Avid S6, Euphonix MC Mix'',
     ''Yamaha CL5, Allen & Heath dLive, DiGiCo SD7'']"

definition statuses3 :: "string list" where
  "statuses3 = [''active'', ''inactive'', ''suspended'']"

definition album_statuses :: "string list" where
  "album_statuses = [''draft'', ''released'', ''archived'']"

definition agreement_statuses :: "string list" where
  "agreement_statuses = [''active'', ''inactive'', ''pending'']"

definition departments :: "string list" where
  "departments = [''Ingenier'' @ i_acute @ ''a'', ''Producci'' @ o_acute @ ''n'',
     ''Administraci'' @ o_acute @ ''n'', ''Marketing'', ''Distribuci'' @ o_acute @ ''n'',
     ''Legal'']"

definition certifications :: "string list" where
  "certifications = [''Certified Audio Engineer'', ''Pro Tools Certified'', ''Neve Certified'',
     ''SSL Certified'', ''Dolby Certified'']"

definition platforms :: "string list" where
  "platforms = [''Spotify'', ''Apple Music'', ''YouTube Music'', ''Amazon Music'', ''Tidal'',
     ''Deezer'', ''SoundCloud'', ''Bandcamp'', ''Beatport'', ''iTunes'']"

definition roles :: "string list" where
  "roles = [''featured'', ''collaborator'', ''featured artist'', ''guest'']"


subsection \<open>The generation steps\<close>

text \<open>A statement whose exception is not caught where it is sent.\<close>

definition must :: "env \<Rightarrow> stmt \<Rightarrow> gen \<Rightarrow> outcome" where
  "must e q s =
     (case seed_execute_query e q s of
        (Failed, s') \<Rightarrow> Raised DbError [q] s'
      | (r, s') \<Rightarrow> Done [q] s')"

text \<open>\<open>clean_database\<close> (SEED_DATA.py:88-103): the loop is inside the \<open>try\<close>.\<close>

definition tables :: "table list" where
  "tables = [SongDistribution, ArtistAlbum, Contract, RecordingSession, Song, Album, Engineer,
     Manager, Staff, Distribution, Studio, Producer, Artist]"

definition clean_database :: "env \<Rightarrow> gen \<Rightarrow> outcome" where
  "clean_database e s = swallow (for_each (\<lambda>t. must e (Truncate t)) tables s)"

text \<open>\<open>generate_artists\<close> (SEED_DATA.py:105-127).\<close>

definition artist_step :: "env \<Rightarrow> nat \<Rightarrow> gen \<Rightarrow> outcome" where
  "artist_step e i s =
     (let r = rand_calls s; f = fake_calls s;
          ps = [PFake ''name'' [faker e f],
                PStr (pick genres (rand e r)),
                PDate (date_between e 5 (faker e (f + 1))),
                PStr (pick statuses3 (rand e (r + 1))),
                PFake ''paragraph'' [faker e (f + 2)],
                PStr (pick nationalities (rand e (r + 2)))]
      in insert_returning e Artist ps (\<lambda>k s'. s'\<lparr>artist_ids := artist_ids s' @ [k]\<rparr>)
           (drew 3 3 s))"

definition generate_artists :: "env \<Rightarrow> nat \<Rightarrow> gen \<Rightarrow> outcome" where
  "generate_artists e count = for_each (artist_step e) [0..<count]"

text \<open>\<open>generate_producers\<close> (SEED_DATA.py:129-149).\<close>

definition producer_step :: "env \<Rightarrow> nat \<Rightarrow> gen \<Rightarrow> outcome" where
  "producer_step e i s =
     (let r = rand_calls s; f = fake_calls s;
          ps = [PFake ''name'' [faker e f],
                PStr (pick specialties (rand e r)),
                PInt (randint 1 40 (rand e (r + 1))),
                PFake ''email'' [faker e (f + 1)],
                PFake ''phone_number'' [faker e (f + 2)]]
      in insert_returning e Producer ps (\<lambda>k s'. s'\<lparr>producer_ids := producer_ids s' @ [k]\<rparr>)
           (drew 2 3 s))"

definition generate_producers :: "env \<Rightarrow> nat \<Rightarrow> gen \<Rightarrow> outcome" where
  "generate_producers e count = for_each (producer_step e) [0..<count]"

text \<open>\<open>generate_studios\<close> (SEED_DATA.py:151-178).\<close>

definition studio_step :: "env \<Rightarrow> nat \<Rightarrow> gen \<Rightarrow> outcome" where
  "studio_step e i s =
     (let r = rand_calls s; f = fake_calls s;
          ps = [PFake ''Studio'' [faker e f, i + 1],
                PStr (pick locations (rand e r)),
                PInt (randint 4 30 (rand e (r + 1))),
                PStr (pick equipment_list (rand e (r + 2))),
                PUniform 50 300 (rand e (r + 3))]
      in insert_returning e Studio ps (\<lambda>k s'. s'\<lparr>studio_ids := studio_ids s' @ [k]\<rparr>)
           (drew 4 1 s))"

definition generate_studios :: "env \<Rightarrow> nat \<Rightarrow> gen \<Rightarrow> outcome" where
  "generate_studios e count = for_each (studio_step e) [0..<count]"

text \<open>
  \<open>generate_albums\<close> (SEED_DATA.py:180-202). \<open>random.choice\<close> of an empty list raises
  IndexError, here outside any \<open>try\<close>.
\<close>

definition album_step :: "env \<Rightarrow> nat \<Rightarrow> gen \<Rightarrow> outcome" where
  "album_step e i s =
     (let r = rand_calls s; f = fake_calls s in
      if producer_ids s = [] then Raised IndexError [] (drew 0 3 s)
      else
        let ps = [PFake ''title'' [faker e f, faker e (f + 1)],
                  PDate (date_between e 3 (faker e (f + 2))),
                  PInt (pick (producer_ids s) (rand e r)),
                  PStr (pick album_statuses (rand e (r + 1))),
                  PStr (pick genres (rand e (r + 2))),
                  PFake ''company'' [faker e (f + 3)]]
        in insert_returning e Album ps (\<lambda>k s'. s'\<lparr>album_ids := album_ids s' @ [k]\<rparr>)
             (drew 3 4 s))"

definition generate_albums :: "env \<Rightarrow> nat \<Rightarrow> gen \<Rightarrow> outcome" where
  "generate_albums e count = for_each (album_step e) [0..<count]"

text \<open>
  \<open>generate_songs\<close> (SEED_DATA.py:204-242): the trigger is disabled in a \<open>try\<close> whose handler
  only warns, each INSERT is in a \<open>try: ... except: pass\<close>, and the trigger is enabled in a
  \<open>try: ... except: pass\<close> after the loop. The choice of the album is outside the \<open>try\<close>.
\<close>

definition song_step :: "env \<Rightarrow> nat \<Rightarrow> gen \<Rightarrow> outcome" where
  "song_step e i s =
     (let r = rand_calls s; f = fake_calls s in
      if album_ids s = [] then Raised IndexError [] s
      else
        let streams_count = randint 0 10000000 (rand e (r + 3));
            ps = [PInt (pick (album_ids s) (rand e r)),
                  PInt (randint 1 20 (rand e (r + 1))),
                  PFake ''title'' [faker e f, faker e (f + 1)],
                  PInt (randint 120 420 (rand e (r + 2))),
                  PFake ''name'' [faker e (f + 2)],
                  PInt streams_count,
                  PBool (streams_count \<ge> 1000000)]
        in attempt e (Insert Song ps) (\<lambda>s'. s') (drew 4 3 s))"

definition generate_songs :: "env \<Rightarrow> nat \<Rightarrow> gen \<Rightarrow> outcome" where
  "generate_songs e count s =
     seq (attempt e DisableTrigger (\<lambda>s'. s') s)
       (\<lambda>s1. seq (for_each (song_step e) [0..<count] s1)
          (attempt e EnableTrigger (\<lambda>s'. s')))"

text \<open>\<open>generate_recording_sessions\<close> (SEED_DATA.py:244-266).\<close>

definition session_step :: "env \<Rightarrow> nat \<Rightarrow> gen \<Rightarrow> outcome" where
  "session_step e i s =
     (let r = rand_calls s; f = fake_calls s in
      if artist_ids s = [] then Raised IndexError [] s
      else if producer_ids s = [] then Raised IndexError [] (drew 1 0 s)
      else if studio_ids s = [] then Raised IndexError [] (drew 2 0 s)
      else
        let ps = [PInt (pick (artist_ids s) (rand e r)),
                  PInt (pick (producer_ids s) (rand e (r + 1))),
                  PInt (pick (studio_ids s) (rand e (r + 2))),
                  PDate (date_between e 2 (faker e f)),
                  PTime (randint 9 18 (rand e (r + 3))) (randint 0 59 (rand e (r + 4))),
                  PUniform 1 8 (rand e (r + 5)),
                  PInt 0]
        in attempt e (Insert RecordingSession ps) (\<lambda>s'. s') (drew 6 1 s))"

definition generate_recording_sessions :: "env \<Rightarrow> nat \<Rightarrow> gen \<Rightarrow> outcome" where
  "generate_recording_sessions e count = for_each (session_step e) [0..<count]"

text \<open>\<open>generate_staff\<close> (SEED_DATA.py:268-287).\<close>

definition staff_step :: "env \<Rightarrow> nat \<Rightarrow> gen \<Rightarrow> outcome" where
  "staff_step e i s =
     (let r = rand_calls s; f = fake_calls s;
          ps = [PFake ''name'' [faker e f],
                PUniform 20000 80000 (rand e r),
                PStr (pick departments (rand e (r + 1))),
                PDate (date_between e 10 (faker e (f + 1)))]
      in insert_returning e Staff ps (\<lambda>k s'. s'\<lparr>staff_ids := staff_ids s' @ [k]\<rparr>)
           (drew 2 2 s))"

definition generate_staff :: "env \<Rightarrow> nat \<Rightarrow> gen \<Rightarrow> outcome" where
  "generate_staff e count = for_each (staff_step e) [0..<count]"

text \<open>
  \<open>generate_engineers\<close> (SEED_DATA.py:289-310): \<open>for i in range(min(count,
  len(self.staff_ids)))\<close>, the engineer being \<open>self.staff_ids[i]\<close>.
\<close>

definition engineer_step :: "env \<Rightarrow> nat \<Rightarrow> gen \<Rightarrow> outcome" where
  "engineer_step e i s =
     (let r = rand_calls s; f = fake_calls s; engineer_id = staff_ids s ! i in
      if studio_ids s = [] then Raised IndexError [] (drew 1 1 s)
      else
        let ps = [PInt engineer_id,
                  PStr (pick certifications (rand e r)),
                  PFake ''paragraph'' [faker e f],
                  PInt (pick (studio_ids s) (rand e (r + 1)))]
        in attempt e (Insert Engineer ps)
             (\<lambda>s'. s'\<lparr>engineer_ids := engineer_ids s' @ [engineer_id]\<rparr>) (drew 2 1 s))"

definition generate_engineers :: "env \<Rightarrow> nat \<Rightarrow> gen \<Rightarrow> outcome" where
  "generate_engineers e count s =
     for_each (engineer_step e) [0..<min count (length (staff_ids s))] s"

text \<open>
  \<open>generate_managers\<close> (SEED_DATA.py:312-331): \<open>for i in range(count, min(count + 10,
  len(self.staff_ids)))\<close>, the manager being \<open>self.staff_ids[i]\<close>.
\<close>

definition manager_step :: "env \<Rightarrow> nat \<Rightarrow> gen \<Rightarrow> outcome" where
  "manager_step e i s =
     (let r = rand_calls s; manager_id = staff_ids s ! i;
          ps = [PInt manager_id,
                PUniform 5 25 (rand e r),
                PInt (randint 1 10 (rand e (r + 1)))]
      in attempt e (Insert Manager ps)
           (\<lambda>s'. s'\<lparr>manager_ids := manager_ids s' @ [manager_id]\<rparr>) (drew 2 0 s))"

definition generate_managers :: "env \<Rightarrow> nat \<Rightarrow> gen \<Rightarrow> outcome" where
  "generate_managers e count s =
     for_each (manager_step e) [count..<min (count + 10) (length (staff_ids s))] s"

text \<open>
  \<open>generate_distributions\<close> (SEED_DATA.py:333-356): \<open>result[0][0]\<close> is inside the \<open>try\<close>.
\<close>

definition distribution_step :: "env \<Rightarrow> string \<Rightarrow> gen \<Rightarrow> outcome" where
  "distribution_step e platform s =
     (let r = rand_calls s;
          ps = [PStr platform,
                PUniform 15 50 (rand e r),
                PStr (pick agreement_statuses (rand e (r + 1)))]
      in swallow (insert_returning e Distribution ps
           (\<lambda>k s'. s'\<lparr>distribution_ids := distribution_ids s' @ [k]\<rparr>) (drew 2 0 s)))"

definition generate_distributions :: "env \<Rightarrow> nat \<Rightarrow> gen \<Rightarrow> outcome" where
  "generate_distributions e count = for_each (distribution_step e) (take count platforms)"

text \<open>
  \<open>generate_song_distributions\<close> (SEED_DATA.py:358-382): the whole body of the loop is
  inside \<open>try: ... except: pass\<close>. The song is the row the database returns for \<open>ORDER BY
  RANDOM() LIMIT 1\<close>; unpacking a row that is not a pair raises ValueError.
\<close>

definition song_distribution_step :: "env \<Rightarrow> nat \<Rightarrow> gen \<Rightarrow> outcome" where
  "song_distribution_step e i s =
     (case seed_execute_query e SelectRandomSong s of
        (Rows ([album_id, song_id] # rows), s1) \<Rightarrow>
          (let r = rand_calls s1; f = fake_calls s1 in
           if distribution_ids s1 = [] then Done [SelectRandomSong] s1
           else
             let ps = [PInt song_id, PInt album_id,
                       PInt (pick (distribution_ids s1) (rand e r)),
                       PDate (date_between e 2 (faker e f)),
                       PStr (pick agreement_statuses (rand e (r + 1)))]
             in seq (Done [SelectRandomSong] (drew 2 1 s1))
                  (attempt e (Insert SongDistribution ps) (\<lambda>s'. s')))
      | (r, s1) \<Rightarrow> Done [SelectRandomSong] s1)"

definition generate_song_distributions :: "env \<Rightarrow> nat \<Rightarrow> gen \<Rightarrow> outcome" where
  "generate_song_distributions e count = for_each (song_distribution_step e) [0..<count]"

text \<open>
  \<open>generate_contracts\<close> (SEED_DATA.py:384-406): the status compares the end date with
  \<open>datetime.now().date()\<close>.
\<close>

definition contract_step :: "env \<Rightarrow> nat \<Rightarrow> gen \<Rightarrow> outcome" where
  "contract_step e i s =
     (let r = rand_calls s; f = fake_calls s;
          start_date = date_between e 5 (faker e f);
          end_date = start_date + randint 365 1825 (rand e r);
          ps = [PInt (artist_ids s ! i),
                PDate start_date,
                PDate end_date,
                PUniform 5 25 (rand e (r + 1)),
                PFake ''paragraph'' [faker e (f + 1)],
                PStr (if end_date \<ge> today e then ''active'' else ''expired'')]
      in attempt e (Insert Contract ps) (\<lambda>s'. s') (drew 2 2 s))"

definition generate_contracts :: "env \<Rightarrow> nat \<Rightarrow> gen \<Rightarrow> outcome" where
  "generate_contracts e count s =
     for_each (contract_step e) [0..<min count (length (artist_ids s))] s"

text \<open>
  \<open>generate_artist_albums\<close> (SEED_DATA.py:408-427): the choices are inside the \<open>try\<close>.
\<close>

definition artist_album_step :: "env \<Rightarrow> nat \<Rightarrow> gen \<Rightarrow> outcome" where
  "artist_album_step e i s =
     (let r = rand_calls s in
      if artist_ids s = [] then Done [] s
      else if album_ids s = [] then Done [] (drew 1 0 s)
      else
        let ps = [PInt (pick (artist_ids s) (rand e r)),
                  PInt (pick (album_ids s) (rand e (r + 1))),
                  PStr (pick roles (rand e (r + 2)))]
        in attempt e (Insert ArtistAlbum ps) (\<lambda>s'. s') (drew 3 0 s))"

definition generate_artist_albums :: "env \<Rightarrow> nat \<Rightarrow> gen \<Rightarrow> outcome" where
  "generate_artist_albums e count = for_each (artist_album_step e) [0..<count]"

text \<open>
  \<open>generate_all\<close> (SEED_DATA.py:429-459) on a new \<open>DataGenerator\<close> (SEED_DATA.py:461-463).
  A failure to connect and an exception of a step end the run in the \<open>except\<close> branch, which
  logs it; the result says which way the run ended.
\<close>

definition generate_all :: "env \<Rightarrow> pg \<Rightarrow> outcome" where
  "generate_all e d =
     (if \<not> connects e then Raised DbError [] (DataGenerator d)
      else chain [clean_database e,
                  generate_artists e 60,
                  generate_producers e 50,
                  generate_studios e 20,
                  generate_albums e 100,
                  generate_songs e 500,
                  generate_recording_sessions e 150,
                  generate_staff e 40,
                  generate_engineers e 15,
                  generate_managers e 10,
                  generate_distributions e 10,
                  generate_song_distributions e 300,
                  generate_contracts e 50,
                  generate_artist_albums e 150] (DataGenerator d))"


section \<open>Concrete storages and requests\<close>

text \<open>A storage with one row per table, reachable and raising on no statement.\<close>

definition demo_store :: store where
  "demo_store = \<lparr>reachable = True, fault = (\<lambda>q. None),
     artist = [[(''artist_id'', VInt 1), (''name'', VStr ''Ana''), (''genre'', VStr ''pop''),
                (''contract_date'', VStr ''2021-03-01''), (''contract_status'', VStr ''inactive''),
                (''biography'', VStr ''bio''), (''nationality'', VStr ''Chile'')]],
     album = [[(''album_id'', VInt 1), (''title'', VStr ''Uno''),
               (''release_date'', VStr ''2022-01-01''), (''producer_id'', VInt 1),
               (''status'', VStr ''draft''), (''genre'', VStr ''pop''), (''label_name'', VStr ''L'')]],
     producer = [[(''producer_id'', VInt 1), (''name'', VStr ''Paz''), (''specialty'', VStr ''Pop''),
                  (''years_experience'', VInt 3), (''email'', VStr ''p@x''), (''phone'', VStr ''1'')]],
     song = [[(''album_id'', VInt 1), (''song_id'', VInt 1), (''title'', VStr ''S''),
              (''duration'', VInt 200), (''composer'', VStr ''C''), (''streams_count'', VInt 5),
              (''is_hit'', VBool False)]],
     contract = [[(''artist_id'', VInt 1), (''status'', VStr ''active'')]],
     artist_seq = 2\<rparr>"

text \<open>The same storage while PostgreSQL cannot be reached.\<close>

definition down_store :: store where
  "down_store = demo_store\<lparr>reachable := False\<rparr>"

text \<open>The body of the spec's scenario for \<open>POST /api/artists\<close>.\<close>

definition scenario_body :: row where
  "scenario_body = [(''name'', VStr ''X''), (''genre'', VStr ''rock''),
     (''contract_date'', VStr ''2020-01-01''), (''nationality'', VStr ''Spain'')]"

text \<open>A PUT payload with one allow-listed field and two that are not.\<close>

definition put_body :: row where
  "put_body = [(''name'', VStr ''Z''), (''contract_date'', VStr ''1999-01-01''),
     (''shoe_size'', VInt 42)]"

definition album_put_body :: row where
  "album_put_body = [(''title'', VStr ''Dos''), (''release_date'', VStr ''1999-01-01''),
     (''producer_id'', VInt 7)]"

text \<open>
  A run of the generator in which the storage raises on nothing: each seeded generator
  returns the number of the call as its draw, and \<open>RANDOM()\<close> is always 0.
\<close>

definition calm :: env where
  "calm = \<lparr>rand = (\<lambda>k. k), faker = (\<lambda>k. k), today = 20000, connects = True,
     raises = (\<lambda>k. False), db_random = (\<lambda>k. 0)\<rparr>"

text \<open>A database with empty tables and the trigger enabled.\<close>

definition empty_pg :: pg where
  "empty_pg = \<lparr>clock = 0, serial = (\<lambda>t. 1), song_keys = [], hit_trigger = True\<rparr>"

text \<open>
  A run in which the connection is lost after the second statement: the storage raises on
  every statement from the third on.
\<close>

definition lossy :: env where
  "lossy = calm\<lparr>raises := (\<lambda>k. 2 \<le> k)\<rparr>"

text \<open>A generator that holds two albums, on the empty database.\<close>

definition two_albums :: gen where
  "two_albums = (DataGenerator empty_pg)\<lparr>album_ids := [1, 2]\<rparr>"

text \<open>
  A generator that holds the forty staff keys 1 to 40 and one studio, as \<open>generate_all\<close>
  has them after \<open>generate_staff(40)\<close> on a database whose sequences start at 1.
\<close>

definition staffed :: gen where
  "staffed = (DataGenerator empty_pg)\<lparr>staff_ids := map int [1..<41], studio_ids := [1]\<rparr>"

text \<open>The same run, but for the values of the database's \<open>RANDOM()\<close>.\<close>

definition calm_other :: env where
  "calm_other = calm\<lparr>db_random := (\<lambda>k. 1)\<rparr>"


section \<open>Vocabulary of the properties\<close>




text \<open>The \<open>streams_count\<close> of a song row, a NULL counting for nothing.\<close>

definition stream_count :: "row \<Rightarrow> int" where
  "stream_count r = (case col r ''streams_count'' of VInt n \<Rightarrow> n | _ \<Rightarrow> 0)"

text \<open>The artists that hold a contract whose status is \<open>active\<close>.\<close>

definition artists_under_contract :: "store \<Rightarrow> int set" where
  "artists_under_contract s =
     {i. list_ex (\<lambda>a. col a ''artist_id'' = VInt i) (artist s)
         \<and> list_ex (\<lambda>c. col c ''artist_id'' = VInt i \<and> col c ''status'' = VStr ''active'')
              (contract s)}"

text \<open>One statistic of the response of \<open>GET /api/stats\<close>.\<close>

definition stat :: "store \<Rightarrow> string \<Rightarrow> val" where
  "stat s k = (case payload (get_stats s) of Obj r \<Rightarrow> col r k | Arr rs \<Rightarrow> VNull)"

text \<open>The tables of the INSERT statements of a list of statements, in order.\<close>

fun insert_table :: "stmt \<Rightarrow> table list" where
  "insert_table (Insert t ps) = [t]"
| "insert_table q = []"

definition inserted :: "stmt list \<Rightarrow> table list" where
  "inserted tr = concat (map insert_table tr)"

text \<open>\<open>all_before a b xs\<close>: every \<open>a\<close> of the list stands before every \<open>b\<close>.\<close>

definition all_before :: "'a \<Rightarrow> 'a \<Rightarrow> 'a list \<Rightarrow> bool" where
  "all_before a b xs = (a \<notin> set (dropWhile (\<lambda>x. x \<noteq> b) xs))"

text \<open>The place of a table's step among the calls of \<open>generate_all\<close>.\<close>

fun phase :: "table \<Rightarrow> nat" where
  "phase Artist = 1"
| "phase Producer = 2"
| "phase Studio = 3"
| "phase Album = 4"
| "phase Song = 5"
| "phase RecordingSession = 6"
| "phase Staff = 7"
| "phase Engineer = 8"
| "phase Manager = 9"
| "phase Distribution = 10"
| "phase SongDistribution = 11"
| "phase Contract = 12"
| "phase ArtistAlbum = 13"

text \<open>
  The keys the generator holds for a table (for the songs, which it does not track, the
  keys in the database), and the tables it holds some key of.
\<close>

fun ids_of :: "table \<Rightarrow> gen \<Rightarrow> int list" where
  "ids_of Artist s = artist_ids s"
| "ids_of Producer s = producer_ids s"
| "ids_of Studio s = studio_ids s"
| "ids_of Album s = album_ids s"
| "ids_of Staff s = staff_ids s"
| "ids_of Distribution s = distribution_ids s"
| "ids_of Song s = map fst (song_keys (db s))"
| "ids_of t s = []"

definition supplies :: "gen \<Rightarrow> table set" where
  "supplies s = {t. ids_of t s \<noteq> []}"

text \<open>
  \<open>extends s s'\<close>: from \<open>s\<close> to \<open>s'\<close> no supply ran out and no song was lost, and the song
  keys stayed free of duplicates.
\<close>

definition extends :: "gen \<Rightarrow> gen \<Rightarrow> bool" where
  "extends s s' =
     (supplies s \<subseteq> supplies s'
      \<and> set (song_keys (db s)) \<subseteq> set (song_keys (db s'))
      \<and> (distinct (song_keys (db s)) \<longrightarrow> distinct (song_keys (db s'))))"

text \<open>
  The keys (first parameters) of the INSERT statements into a table, among a list of
  statements: the rows that were attempted there.
\<close>

fun key_of :: "table \<Rightarrow> stmt \<Rightarrow> param list" where
  "key_of t (Insert t' (p # ps)) = (if t = t' then [p] else [])"
| "key_of t q = []"

definition attempted :: "table \<Rightarrow> stmt list \<Rightarrow> param list" where
  "attempted t tr = concat (map (key_of t) tr)"

text \<open>The statement is an INSERT into the song table.\<close>

fun song_insert :: "stmt \<Rightarrow> bool" where
  "song_insert (Insert t ps) = (t = Song)"
| "song_insert q = False"

text \<open>
  A statement without the song it is attached to: the INSERT into \<open>song_distribution\<close>
  without its first two parameters (\<open>song_id\<close>, \<open>album_id\<close>), any other statement as it is.
\<close>

fun without_song :: "stmt \<Rightarrow> stmt" where
  "without_song (Insert t ps) =
     (if t = SongDistribution then Insert t (drop 2 ps) else Insert t ps)"
| "without_song q = q"

text \<open>
  Two runs, or parts of runs, that end the same way in the same state and sent the same
  statements but for the songs of the song distributions.
\<close>

definition same_but_songs :: "outcome \<Rightarrow> outcome \<Rightarrow> bool" where
  "same_but_songs a b =
     (map without_song (sent a) = map without_song (sent b)
      \<and> final a = final b \<and> returned a = returned b)"

text \<open>The state after the database has received one more statement that changed nothing.\<close>

definition tick :: "gen \<Rightarrow> gen" where
  "tick s = s\<lparr>db := (db s)\<lparr>clock := Suc (clock (db s))\<rparr>\<rparr>"


section \<open>Properties of the REST service\<close>

subsection \<open>Assignments of an UPDATE\<close>




lemma set_clauses_empty:
  "(set_clauses fs data = []) = (\<not> list_ex (has_field data) fs)"
  by (induction fs) (auto simp: has_field_def split: option.splits)




lemma update_where_no_match:
  "\<not> list_ex (has_id k i) rs \<Longrightarrow> update_where k i cvs rs = rs"
  by (induction rs) (auto simp: update_where_def)


subsection \<open>Get by id\<close>

lemmas api_defs =
  get_db_connection_def execute_def execute_query_def status_def payload_def after_def

lemma get_artist_unreachable:
  "\<not> reachable s \<Longrightarrow> get_artist s i = (s, 404, error_body ''Artista no encontrado'')"
  by (simp add: get_artist_def api_defs)

lemma get_artist_absent:
  "\<not> list_ex (has_id ''artist_id'' i) (artist s) \<Longrightarrow>
   get_artist s i = (s, 404, error_body ''Artista no encontrado'')"
  by (auto simp: get_artist_def api_defs list_ex_iff filter_empty_conv
      split: option.splits list.splits)

text \<open>
  C1. A GET by id answers a missing row with 404 and is to answer an unreachable storage
  with a server error, distinct from it. Evaluated on a storage that cannot be reached,
  \<open>get_artist\<close>, \<open>get_album\<close> and \<open>get_producer\<close> answer 404 with the not-found message, for
  a row that exists: the very response they give for an id that has no row.
\<close>

theorem get_by_id_unreachable_is_not_found:
  "get_artist down_store 1 = (down_store, 404, error_body ''Artista no encontrado'')
   \<and> snd (get_artist down_store 1) = snd (get_artist demo_store 99)
   \<and> status (get_album down_store 1) = 404
   \<and> snd (get_album down_store 1) = snd (get_album demo_store 99)
   \<and> status (get_producer down_store 1) = 404
   \<and> snd (get_producer down_store 1) = snd (get_producer demo_store 99)
   \<and> status (get_artist demo_store 1) = 200"
  by (simp add: get_artist_def get_album_def get_producer_def api_defs down_store_def
      demo_store_def has_id_def col_def project_def artist_cols_def Let_def)


subsection \<open>Update\<close>

lemma update_artist_status:
  "status (update_artist s data i) \<in> {200, 400, 500}"
  by (simp add: update_artist_def api_defs nothing_to_update_def connection_error_def Let_def
      split: option.splits)

lemma update_album_status:
  "status (update_album s data i) \<in> {200, 400, 500}"
  by (simp add: update_album_def api_defs nothing_to_update_def connection_error_def Let_def
      split: option.splits)

lemma update_artist_absent:
  assumes "list_ex (has_field data) artist_allowed"
    and "reachable s"
    and "fault s (UpdateArtist (set_clauses artist_allowed data) i) = None"
    and "\<not> list_ex (has_id ''artist_id'' i) (artist s)"
  shows "update_artist s data i = (s, 200, message_body ''Artista actualizado exitosamente'')"
  using assms
  by (simp add: update_artist_def api_defs set_clauses_empty update_where_no_match Let_def)

lemma update_album_absent:
  assumes "list_ex (has_field data) album_allowed"
    and "reachable s"
    and "fault s (UpdateAlbum (set_clauses album_allowed data) i) = None"
    and "\<not> list_ex (has_id ''album_id'' i) (album s)"
  shows "update_album s data i
         = (s, 200, message_body (A_acute @ ''lbum actualizado exitosamente''))"
  using assms
  by (simp add: update_album_def api_defs set_clauses_empty update_where_no_match Let_def)

text \<open>
  C10. A PUT on artists or albums with at least one allow-listed field whose UPDATE runs
  (the storage is reached and raises on nothing) and finds no row with the id returns the
  200 success response and leaves the storage as it was; and no PUT, whatever the storage
  does, is answered with 404.
\<close>

theorem update_of_absent_row_succeeds:
  "status (update_artist s data i) \<noteq> 404
   \<and> status (update_album s data i) \<noteq> 404
   \<and> (list_ex (has_field data) artist_allowed \<and> reachable s
        \<and> fault s (UpdateArtist (set_clauses artist_allowed data) i) = None
        \<and> \<not> list_ex (has_id ''artist_id'' i) (artist s)
      \<longrightarrow> update_artist s data i
            = (s, 200, message_body ''Artista actualizado exitosamente''))
   \<and> (list_ex (has_field data) album_allowed \<and> reachable s
        \<and> fault s (UpdateAlbum (set_clauses album_allowed data) i) = None
        \<and> \<not> list_ex (has_id ''album_id'' i) (album s)
      \<longrightarrow> update_album s data i
            = (s, 200, message_body (A_acute @ ''lbum actualizado exitosamente'')))"
proof -
  have "status (update_artist s data i) \<noteq> 404"
    using update_artist_status [of s data i] by auto
  moreover have "status (update_album s data i) \<noteq> 404"
    using update_album_status [of s data i] by auto
  ultimately show ?thesis
    using update_artist_absent [of data s i] update_album_absent [of data s i] by blast
qed

theorem update_of_absent_row_succeeds_witness:
  "list_ex (has_field put_body) artist_allowed \<and> reachable demo_store
   \<and> fault demo_store (UpdateArtist (set_clauses artist_allowed put_body) 99) = None
   \<and> \<not> list_ex (has_id ''artist_id'' 99) (artist demo_store)
   \<and> update_artist demo_store put_body 99
       = (demo_store, 200, message_body ''Artista actualizado exitosamente'')
   \<and> list_ex (has_field album_put_body) album_allowed
   \<and> fault demo_store (UpdateAlbum (set_clauses album_allowed album_put_body) 99) = None
   \<and> \<not> list_ex (has_id ''album_id'' 99) (album demo_store)
   \<and> update_album demo_store album_put_body 99
       = (demo_store, 200, message_body (A_acute @ ''lbum actualizado exitosamente''))
   \<and> status (update_artist demo_store put_body 99) \<noteq> 404"
proof -
  have a: "list_ex (has_field put_body) artist_allowed"
    by (simp add: put_body_def artist_allowed_def has_field_def)
  have b: "list_ex (has_field album_put_body) album_allowed"
    by (simp add: album_put_body_def album_allowed_def has_field_def)
  have c: "reachable demo_store" by (simp add: demo_store_def)
  have d: "fault demo_store q = None" for q by (simp add: demo_store_def)
  have e: "\<not> list_ex (has_id ''artist_id'' 99) (artist demo_store)"
    by (simp add: demo_store_def has_id_def col_def)
  have f: "\<not> list_ex (has_id ''album_id'' 99) (album demo_store)"
    by (simp add: demo_store_def has_id_def col_def)
  show ?thesis
    using update_of_absent_row_succeeds [of demo_store put_body 99]
      update_of_absent_row_succeeds [of demo_store album_put_body 99] a b c d e f
    by (simp add: status_def)
qed













subsection \<open>Delete\<close>

lemma delete_artist_cases:
  "delete_artist s i = (s, connection_error)
   \<or> (\<exists>e. delete_artist s i = (s, 400, error_body e))
   \<or> (reachable s \<and> fault s (DeleteArtist i) = None
      \<and> delete_artist s i
          = (s\<lparr>artist := filter (\<lambda>r. \<not> has_id ''artist_id'' i r) (artist s)\<rparr>,
             200, message_body ''Artista eliminado exitosamente''))"
  by (auto simp: delete_artist_def api_defs split: option.splits)

lemma delete_artist_runs:
  "reachable s \<Longrightarrow> fault s (DeleteArtist i) = None \<Longrightarrow>
   delete_artist s i
     = (s\<lparr>artist := filter (\<lambda>r. \<not> has_id ''artist_id'' i r) (artist s)\<rparr>,
        200, message_body ''Artista eliminado exitosamente'')"
  by (simp add: delete_artist_def api_defs)

lemma filter_no_match: "\<not> list_ex P xs \<Longrightarrow> filter (\<lambda>x. \<not> P x) xs = xs"
  by (induction xs) auto

text \<open>
  C7, as the code has it. When the storage is reached and the DELETE runs, the response
  is 200 with the message \<open>Artista eliminado exitosamente\<close> and nothing else, whether or not
  a row had the id; no row with the id is left, so a GET of the id is answered 404 whatever
  the storage then does; and when no row had the id the storage is unchanged. Whenever the
  response is 200, no row with the id is left.
\<close>

theorem delete_artist_then_not_found:
  "(reachable s \<and> fault s (DeleteArtist i) = None \<longrightarrow>
      snd (delete_artist s i) = (200, message_body ''Artista eliminado exitosamente'')
      \<and> \<not> list_ex (has_id ''artist_id'' i) (artist (after (delete_artist s i)))
      \<and> status (get_artist ((after (delete_artist s i))\<lparr>reachable := up, fault := f\<rparr>) i)
          = 404)
   \<and> (reachable s \<and> fault s (DeleteArtist i) = None
        \<and> \<not> list_ex (has_id ''artist_id'' i) (artist s) \<longrightarrow>
      delete_artist s i = (s, 200, message_body ''Artista eliminado exitosamente''))
   \<and> (status (delete_artist s i) = 200 \<longrightarrow>
      \<not> list_ex (has_id ''artist_id'' i) (artist (after (delete_artist s i))))"
proof -
  have gone: "\<not> list_ex (has_id ''artist_id'' i)
      (artist (s\<lparr>artist := filter (\<lambda>r. \<not> has_id ''artist_id'' i r) (artist s)\<rparr>))"
    by (simp add: list_ex_iff)
  have a: "reachable s \<and> fault s (DeleteArtist i) = None \<longrightarrow>
      snd (delete_artist s i) = (200, message_body ''Artista eliminado exitosamente'')
      \<and> \<not> list_ex (has_id ''artist_id'' i) (artist (after (delete_artist s i)))
      \<and> status (get_artist ((after (delete_artist s i))\<lparr>reachable := up, fault := f\<rparr>) i)
          = 404"
  proof
    assume h: "reachable s \<and> fault s (DeleteArtist i) = None"
    then have d: "delete_artist s i
        = (s\<lparr>artist := filter (\<lambda>r. \<not> has_id ''artist_id'' i r) (artist s)\<rparr>,
           200, message_body ''Artista eliminado exitosamente'')"
      by (simp add: delete_artist_runs)
    have "\<not> list_ex (has_id ''artist_id'' i)
        (artist ((after (delete_artist s i))\<lparr>reachable := up, fault := f\<rparr>))"
      using gone by (simp add: d after_def)
    then have "get_artist ((after (delete_artist s i))\<lparr>reachable := up, fault := f\<rparr>) i
        = ((after (delete_artist s i))\<lparr>reachable := up, fault := f\<rparr>, 404,
           error_body ''Artista no encontrado'')"
      by (rule get_artist_absent)
    then show "snd (delete_artist s i) = (200, message_body ''Artista eliminado exitosamente'')
      \<and> \<not> list_ex (has_id ''artist_id'' i) (artist (after (delete_artist s i)))
      \<and> status (get_artist ((after (delete_artist s i))\<lparr>reachable := up, fault := f\<rparr>) i)
          = 404"
      using gone by (simp add: d after_def status_def)
  qed
  have b: "reachable s \<and> fault s (DeleteArtist i) = None
        \<and> \<not> list_ex (has_id ''artist_id'' i) (artist s) \<longrightarrow>
      delete_artist s i = (s, 200, message_body ''Artista eliminado exitosamente'')"
    by (simp add: delete_artist_runs filter_no_match)
  have c: "status (delete_artist s i) = 200 \<longrightarrow>
      \<not> list_ex (has_id ''artist_id'' i) (artist (after (delete_artist s i)))"
    using delete_artist_cases [of s i] gone
    by (auto simp: status_def after_def connection_error_def)
  from a b c show ?thesis by blast
qed

theorem delete_artist_then_not_found_witness:
  "reachable demo_store \<and> fault demo_store (DeleteArtist 1) = None
   \<and> list_ex (has_id ''artist_id'' 1) (artist demo_store)
   \<and> status (delete_artist demo_store 1) = 200
   \<and> artist (after (delete_artist demo_store 1)) = []
   \<and> status (get_artist (after (delete_artist demo_store 1)) 1) = 404
   \<and> \<not> list_ex (has_id ''artist_id'' 99) (artist demo_store)
   \<and> delete_artist demo_store 99
       = (demo_store, 200, message_body ''Artista eliminado exitosamente'')"
proof -
  have r: "reachable demo_store" and f: "fault demo_store q = None" for q
    by (simp_all add: demo_store_def)
  have e: "list_ex (has_id ''artist_id'' 1) (artist demo_store)"
    and n: "\<not> list_ex (has_id ''artist_id'' 99) (artist demo_store)"
    by (simp_all add: demo_store_def has_id_def col_def)
  have t: "artist (after (delete_artist demo_store 1)) = []"
    by (simp add: delete_artist_def api_defs demo_store_def has_id_def col_def)
  have s: "(after (delete_artist demo_store 1))\<lparr>reachable := True, fault := (\<lambda>q. None)\<rparr>
      = after (delete_artist demo_store 1)"
    by (simp add: delete_artist_def api_defs demo_store_def)
  show ?thesis
    using delete_artist_then_not_found [of demo_store 1 "\<lambda>q. None" True]
      delete_artist_then_not_found [of demo_store 99 "\<lambda>q. None" True] r f e n t s
    by (simp add: status_def)
qed

text \<open>
  The claim as stated fails in its last part: the response to a DELETE of an id that has no
  row does not report zero rows affected. It is the message alone, holds no number, and is
  the response to the DELETE that removed a row.
\<close>

theorem delete_artist_reports_no_count:
  "delete_artist demo_store 99
     = (demo_store, 200, Obj [(''message'', VStr ''Artista eliminado exitosamente'')])
   \<and> snd (delete_artist demo_store 99) = snd (delete_artist demo_store 1)
   \<and> artist (after (delete_artist demo_store 1)) \<noteq> artist demo_store
   \<and> VInt 0 \<notin> snd ` set [(''message'', VStr ''Artista eliminado exitosamente'')]"
  by (simp add: delete_artist_def api_defs demo_store_def has_id_def col_def message_body_def)

subsection \<open>Create\<close>

lemma create_artist_runs:
  assumes "list_all (has_field data) artist_required"
    and "reachable s" and "fault s (artist_insert data) = None"
  shows "create_artist s data
    = (s\<lparr>artist := artist s @
           [[(''artist_id'', VInt (artist_seq s)), (''name'', col data ''name''),
             (''genre'', col data ''genre''), (''contract_date'', col data ''contract_date''),
             (''contract_status'', dict_get data ''contract_status'' (VStr ''active'')),
             (''biography'', dict_get data ''biography'' (VStr [])),
             (''nationality'', col data ''nationality'')]],
         artist_seq := artist_seq s + 1\<rparr>,
       201, Obj [(''artist_id'', VInt (artist_seq s)),
                 (''message'', VStr ''Artista creado exitosamente'')])"
proof -
  have q: "fault s (InsertArtist (col data ''name'') (col data ''genre'')
      (col data ''contract_date'') (dict_get data ''contract_status'' (VStr ''active''))
      (dict_get data ''biography'' (VStr [])) (col data ''nationality'')) = None"
    using assms(3) by (simp add: artist_insert_def)
  show ?thesis
    using assms(1,2) q
    by (simp add: create_artist_def api_defs artist_insert_def Let_def col_def)
qed

text \<open>
  C5, as the code has it. For a POST body that holds \<open>name\<close>, \<open>genre\<close>, \<open>contract_date\<close> and
  \<open>nationality\<close>: when the storage is reached and the INSERT runs, the response is 201 with
  the new \<open>artist_id\<close>, one row is appended to the artists, with the body's values, and with
  \<open>contract_status\<close> "active" and \<open>biography\<close> "" where the body omits them; a storage that
  cannot be reached is answered 500 and an INSERT that raises 400, and neither stores a
  row.
\<close>

theorem create_artist_applies_defaults:
  assumes "list_all (has_field data) artist_required"
  shows "(reachable s \<and> fault s (artist_insert data) = None \<longrightarrow>
      snd (create_artist s data)
        = (201, Obj [(''artist_id'', VInt (artist_seq s)),
                     (''message'', VStr ''Artista creado exitosamente'')])
      \<and> butlast (artist (after (create_artist s data))) = artist s
      \<and> col (last (artist (after (create_artist s data)))) ''artist_id'' = VInt (artist_seq s)
      \<and> list_all (\<lambda>c. col (last (artist (after (create_artist s data)))) c = col data c)
           artist_required
      \<and> col (last (artist (after (create_artist s data)))) ''contract_status''
          = (if has_field data ''contract_status'' then col data ''contract_status''
             else VStr ''active'')
      \<and> col (last (artist (after (create_artist s data)))) ''biography''
          = (if has_field data ''biography'' then col data ''biography'' else VStr []))
   \<and> (\<not> reachable s \<longrightarrow> create_artist s data = (s, connection_error))
   \<and> (\<forall>e. reachable s \<and> fault s (artist_insert data) = Some e \<longrightarrow>
        create_artist s data = (s, 400, error_body e))"
proof -
  have ok: "reachable s \<and> fault s (artist_insert data) = None \<longrightarrow>
      snd (create_artist s data)
        = (201, Obj [(''artist_id'', VInt (artist_seq s)),
                     (''message'', VStr ''Artista creado exitosamente'')])
      \<and> butlast (artist (after (create_artist s data))) = artist s
      \<and> col (last (artist (after (create_artist s data)))) ''artist_id'' = VInt (artist_seq s)
      \<and> list_all (\<lambda>c. col (last (artist (after (create_artist s data)))) c = col data c)
           artist_required
      \<and> col (last (artist (after (create_artist s data)))) ''contract_status''
          = (if has_field data ''contract_status'' then col data ''contract_status''
             else VStr ''active'')
      \<and> col (last (artist (after (create_artist s data)))) ''biography''
          = (if has_field data ''biography'' then col data ''biography'' else VStr [])"
    using create_artist_runs [OF assms, of s]
    by (auto simp: after_def artist_required_def col_def dict_get_def has_field_def
        split: option.splits)
  have down: "\<not> reachable s \<longrightarrow> create_artist s data = (s, connection_error)"
    using assms by (simp add: create_artist_def api_defs)
  have bad: "\<forall>e. reachable s \<and> fault s (artist_insert data) = Some e \<longrightarrow>
        create_artist s data = (s, 400, error_body e)"
    using assms by (simp add: create_artist_def api_defs)
  from ok down bad show ?thesis by blast
qed

theorem create_artist_applies_defaults_witness:
  "list_all (has_field scenario_body) artist_required
   \<and> reachable demo_store \<and> fault demo_store (artist_insert scenario_body) = None
   \<and> \<not> has_field scenario_body ''contract_status'' \<and> \<not> has_field scenario_body ''biography''
   \<and> snd (create_artist demo_store scenario_body)
       = (201, Obj [(''artist_id'', VInt 2), (''message'', VStr ''Artista creado exitosamente'')])
   \<and> col (last (artist (after (create_artist demo_store scenario_body)))) ''contract_status''
       = VStr ''active''
   \<and> col (last (artist (after (create_artist demo_store scenario_body)))) ''biography''
       = VStr []
   \<and> col (last (artist (after (create_artist demo_store scenario_body)))) ''name'' = VStr ''X''"
proof -
  have h: "list_all (has_field scenario_body) artist_required"
    by (simp add: scenario_body_def artist_required_def has_field_def)
  have r: "reachable demo_store" and f: "fault demo_store q = None" for q
    by (simp_all add: demo_store_def)
  have o: "\<not> has_field scenario_body ''contract_status''"
    "\<not> has_field scenario_body ''biography''"
    by (simp_all add: scenario_body_def has_field_def)
  have n: "col scenario_body ''name'' = VStr ''X''" "artist_seq demo_store = 2"
    by (simp_all add: scenario_body_def col_def demo_store_def)
  show ?thesis
    using create_artist_applies_defaults [OF h, of demo_store] h r f o n
    by (simp add: artist_required_def)
qed

text \<open>
  The claim as stated fails: the body of the spec's scenario holds the four fields, and
  while the storage cannot be reached the response is 500, not 201.
\<close>

theorem create_artist_unreachable_is_500:
  "list_all (has_field scenario_body) artist_required
   \<and> create_artist down_store scenario_body
       = (down_store, 500, Obj [(''error'', VStr (''Error de conexi'' @ o_acute @ ''n''))])
   \<and> status (create_artist down_store scenario_body) \<noteq> 201"
  by (simp add: create_artist_def api_defs scenario_body_def artist_required_def has_field_def
      down_store_def demo_store_def connection_error_def error_body_def)

subsection \<open>Statistics\<close>

lemma sum_int_values:
  "sum_list (int_values ''streams_count'' rs) = sum_list (map stream_count rs)"
  by (induction rs) (auto simp: int_values_def stream_count_def split: val.splits)

lemma total_of_sum:
  "total_or_zero (PyRow [(''total'', sql_sum ''streams_count'' rs)])
     = VInt (sum_list (map stream_count rs))"
proof (cases "int_values ''streams_count'' rs = []")
  case True
  then have "sum_list (int_values ''streams_count'' rs) = 0" by simp
  then have "sum_list (map stream_count rs) = 0" by (simp add: sum_int_values)
  with True show ?thesis by (simp add: total_or_zero_def sql_sum_def col_def)
next
  case False
  then show ?thesis
    by (simp add: total_or_zero_def sql_sum_def col_def sum_int_values)
qed

lemma set_active_artist_ids: "set (active_artist_ids s) = artists_under_contract s"
  by (auto simp: active_artist_ids_def artists_under_contract_def list_ex_iff
      split: val.splits if_splits)

lemma length_active_artist_ids:
  "length (active_artist_ids s) = card (artists_under_contract s)"
proof -
  have "distinct (active_artist_ids s)" by (simp add: active_artist_ids_def)
  then have "card (set (active_artist_ids s)) = length (active_artist_ids s)"
    by (rule distinct_card)
  then show ?thesis by (simp add: set_active_artist_ids)
qed

lemma stats_query:
  "q \<in> {CountArtists, CountAlbums, CountSongs, CountHits, SumStreams, CountActiveArtists} \<Longrightarrow>
   execute_query s q True
     = (s, if reachable s \<and> fault s q = None then PyRow (hd (fst (snd (run s q)))) else PyNone)"
  by (auto simp: api_defs count_row_def split: option.splits)

lemma get_stats_eq:
  "get_stats s =
     (s, 200, Obj [(''total_artists'', count_or_zero (snd (execute_query s CountArtists True))),
                   (''total_albums'', count_or_zero (snd (execute_query s CountAlbums True))),
                   (''total_songs'', count_or_zero (snd (execute_query s CountSongs True))),
                   (''total_hits'', count_or_zero (snd (execute_query s CountHits True))),
                   (''total_streams'', total_or_zero (snd (execute_query s SumStreams True))),
                   (''active_artists'',
                      count_or_zero (snd (execute_query s CountActiveArtists True)))])"
  by (simp add: get_stats_def stats_query split: prod.splits)

lemma stat_total_streams:
  "stat s ''total_streams''
     = (if reachable s \<and> fault s SumStreams = None
        then VInt (sum_list (map stream_count (song s))) else VInt 0)"
proof -
  have q: "snd (execute_query s SumStreams True)
      = (if reachable s \<and> fault s SumStreams = None
         then PyRow [(''total'', sql_sum ''streams_count'' (song s))] else PyNone)"
    by (simp add: stats_query)
  have z: "total_or_zero PyNone = VInt 0" by (simp add: total_or_zero_def)
  have "stat s ''total_streams'' = total_or_zero (snd (execute_query s SumStreams True))"
    by (simp add: stat_def payload_def get_stats_eq col_def)
  then show ?thesis
    by (simp only: q total_of_sum z if_distrib [of total_or_zero])
qed

lemma stat_active_artists:
  "stat s ''active_artists''
     = (if reachable s \<and> fault s CountActiveArtists = None
        then VInt (int (card (artists_under_contract s))) else VInt 0)"
  by (simp add: stat_def payload_def get_stats_eq stats_query col_def count_or_zero_def
      count_row_def length_active_artist_ids)

text \<open>
  C8, as the code has it. \<open>GET /api/stats\<close> always answers 200. When the storage is reached
  and the query runs, \<open>total_streams\<close> is the sum of \<open>streams_count\<close> over the song rows (0
  over none) and \<open>active_artists\<close> the number of distinct artists that hold a contract of
  status \<open>active\<close>; a statistic whose query fails is reported as 0.
\<close>

theorem stats_totals:
  "status (get_stats s) = 200
   \<and> (reachable s \<and> fault s SumStreams = None \<longrightarrow>
        stat s ''total_streams'' = VInt (sum_list (map stream_count (song s))))
   \<and> (reachable s \<and> fault s CountActiveArtists = None \<longrightarrow>
        stat s ''active_artists'' = VInt (int (card (artists_under_contract s))))
   \<and> (\<not> (reachable s \<and> fault s SumStreams = None) \<longrightarrow> stat s ''total_streams'' = VInt 0)
   \<and> (\<not> (reachable s \<and> fault s CountActiveArtists = None) \<longrightarrow>
        stat s ''active_artists'' = VInt 0)"
  by (simp add: stat_total_streams stat_active_artists get_stats_eq status_def)

theorem stats_totals_witness:
  "reachable demo_store \<and> fault demo_store SumStreams = None
   \<and> fault demo_store CountActiveArtists = None
   \<and> sum_list (map stream_count (song demo_store)) = 5
   \<and> artists_under_contract demo_store = {1}
   \<and> stat demo_store ''total_streams'' = VInt 5
   \<and> stat demo_store ''active_artists'' = VInt 1
   \<and> stat down_store ''total_streams'' = VInt 0"
proof -
  have r: "reachable demo_store" "\<not> reachable down_store" and f: "fault demo_store q = None" for q
    by (simp_all add: demo_store_def down_store_def)
  have t: "sum_list (map stream_count (song demo_store)) = 5"
    by (simp add: demo_store_def stream_count_def col_def)
  have a: "artists_under_contract demo_store = {1}"
    by (auto simp: artists_under_contract_def demo_store_def col_def)
  show ?thesis
    using stats_totals [of demo_store] stats_totals [of down_store] r f t a by simp
qed

text \<open>
  The claim as stated fails: the song table of \<open>down_store\<close> sums to 5 streams and one artist
  holds an active contract, yet while the storage cannot be reached the response is 200
  with both statistics 0.
\<close>

theorem stats_unreachable_reports_zero:
  "sum_list (map stream_count (song down_store)) = 5
   \<and> card (artists_under_contract down_store) = 1
   \<and> status (get_stats down_store) = 200
   \<and> stat down_store ''total_streams'' = VInt 0
   \<and> stat down_store ''active_artists'' = VInt 0"
proof -
  have t: "sum_list (map stream_count (song down_store)) = 5"
    by (simp add: demo_store_def down_store_def stream_count_def col_def)
  have a: "artists_under_contract down_store = {1}"
    by (auto simp: artists_under_contract_def demo_store_def down_store_def col_def)
  have d: "\<not> reachable down_store" by (simp add: down_store_def)
  show ?thesis
    using t a d
    by (simp add: stat_total_streams stat_active_artists get_stats_eq status_def)
qed


section \<open>Properties of the data generator\<close>

subsection \<open>Control flow\<close>

lemma sent_seq:
  "sent (seq a f) = sent a @ (if returned a then sent (f (final a)) else [])"
  by (cases a) (auto simp: seq.simps split: outcome.splits)

lemma returned_seq: "returned (seq a f) = (returned a \<and> returned (f (final a)))"
  by (cases a) (auto simp: seq.simps split: outcome.splits)

lemma final_seq: "final (seq a f) = (if returned a then final (f (final a)) else final a)"
  by (cases a) (auto simp: seq.simps split: outcome.splits)

lemma sent_swallow: "sent (swallow a) = sent a"
  by (cases a) auto

lemma final_swallow: "final (swallow a) = final a"
  by (cases a) auto

lemma returned_swallow: "returned (swallow a)"
  by (cases a) auto

declare seq.simps [simp del]

lemma outcome_eqI:
  "sent a = sent b \<Longrightarrow> final a = final b \<Longrightarrow> returned a = returned b \<Longrightarrow>
   (\<And>x tr s. a = Raised x tr s \<Longrightarrow> \<exists>tr' s'. b = Raised x tr' s') \<Longrightarrow> a = b"
  by (cases a; cases b) auto

lemma inserted_append: "inserted (xs @ ys) = inserted xs @ inserted ys"
  by (simp add: inserted_def)

lemma inserted_Nil: "inserted [] = []"
  by (simp add: inserted_def)

lemma for_each_inserts:
  assumes "\<And>x s. set (inserted (sent (body x s))) \<subseteq> T"
  shows "set (inserted (sent (for_each body xs s))) \<subseteq> T"
proof (induction xs arbitrary: s)
  case Nil
  show ?case by (simp add: inserted_Nil)
next
  case (Cons x xs)
  show ?case
    using assms [of x s] Cons.IH [of "final (body x s)"]
    by (auto simp: sent_seq inserted_append inserted_Nil)
qed

subsection \<open>What each step sends\<close>

lemma sent_attempt: "sent (attempt e q k s) = [q]"
  by (simp add: attempt_def split: prod.splits reply.splits)

lemma returned_attempt: "returned (attempt e q k s)"
  by (simp add: attempt_def split: prod.splits reply.splits)

lemma sent_insert_returning: "sent (insert_returning e t ps k s) = [Insert t ps]"
  by (simp add: insert_returning_def split: prod.splits sum.splits)

lemma sent_must: "sent (must e q s) = [q]"
  by (simp add: must_def split: prod.splits reply.splits)

lemmas sent_simps = sent_attempt sent_insert_returning sent_must sent_swallow sent_seq

lemma inserted_clean_database: "inserted (sent (clean_database e s)) = []"
proof -
  have "set (inserted (sent (for_each (\<lambda>t. must e (Truncate t)) tables s))) \<subseteq> {}"
    by (rule for_each_inserts) (simp add: sent_must inserted_def)
  then show ?thesis by (simp add: clean_database_def sent_swallow)
qed

lemma inserted_artist_step: "set (inserted (sent (artist_step e i s))) \<subseteq> {Artist}"
  by (simp add: artist_step_def Let_def sent_simps inserted_def)

lemma inserted_producer_step: "set (inserted (sent (producer_step e i s))) \<subseteq> {Producer}"
  by (simp add: producer_step_def Let_def sent_simps inserted_def)

lemma inserted_studio_step: "set (inserted (sent (studio_step e i s))) \<subseteq> {Studio}"
  by (simp add: studio_step_def Let_def sent_simps inserted_def)

lemma inserted_album_step: "set (inserted (sent (album_step e i s))) \<subseteq> {Album}"
  by (simp add: album_step_def Let_def sent_simps inserted_def)

lemma inserted_song_step: "set (inserted (sent (song_step e i s))) \<subseteq> {Song}"
  by (simp add: song_step_def Let_def sent_simps inserted_def)

lemma inserted_session_step:
  "set (inserted (sent (session_step e i s))) \<subseteq> {RecordingSession}"
  by (simp add: session_step_def Let_def sent_simps inserted_def)

lemma inserted_staff_step: "set (inserted (sent (staff_step e i s))) \<subseteq> {Staff}"
  by (simp add: staff_step_def Let_def sent_simps inserted_def)

lemma inserted_engineer_step: "set (inserted (sent (engineer_step e i s))) \<subseteq> {Engineer}"
  by (simp add: engineer_step_def Let_def sent_simps inserted_def)

lemma inserted_manager_step: "set (inserted (sent (manager_step e i s))) \<subseteq> {Manager}"
  by (simp add: manager_step_def Let_def sent_simps inserted_def)

lemma inserted_distribution_step:
  "set (inserted (sent (distribution_step e p s))) \<subseteq> {Distribution}"
  by (simp add: distribution_step_def Let_def sent_simps inserted_def)

lemma inserted_song_distribution_step:
  "set (inserted (sent (song_distribution_step e i s))) \<subseteq> {SongDistribution}"
  by (auto simp: song_distribution_step_def Let_def sent_simps inserted_def
      split: prod.splits reply.splits list.splits)

lemma inserted_contract_step: "set (inserted (sent (contract_step e i s))) \<subseteq> {Contract}"
  by (simp add: contract_step_def Let_def sent_simps inserted_def)

lemma inserted_artist_album_step:
  "set (inserted (sent (artist_album_step e i s))) \<subseteq> {ArtistAlbum}"
  by (simp add: artist_album_step_def Let_def sent_simps inserted_def)

lemma inserted_generate_songs: "set (inserted (sent (generate_songs e n s))) \<subseteq> {Song}"
proof -
  have "set (inserted (sent (for_each (song_step e) [0..<n] s'))) \<subseteq> {Song}" for s'
    by (rule for_each_inserts) (rule inserted_song_step)
  then show ?thesis
    by (auto simp: generate_songs_def sent_simps inserted_append inserted_def)
qed


subsection \<open>The order of the insertions\<close>

lemma sorted_const: "set xs \<subseteq> {p::nat} \<Longrightarrow> sorted xs"
  by (induction xs) auto

lemma chain_phases:
  assumes "list_all2 (\<lambda>f p. \<forall>s. phase ` set (inserted (sent (f s))) \<subseteq> {p}) fs ps"
    and "sorted ps"
  shows "sorted (map phase (inserted (sent (chain fs s))))
         \<and> phase ` set (inserted (sent (chain fs s))) \<subseteq> set ps"
  using assms
proof (induction fs ps arbitrary: s rule: list_all2_induct)
  case Nil
  show ?case by (simp add: inserted_Nil)
next
  case (Cons f fs p ps)
  have blk: "phase ` set (inserted (sent (f s))) \<subseteq> {p}" using Cons.hyps(1) by blast
  then have own: "sorted (map phase (inserted (sent (f s))))"
    by (intro sorted_const [of _ p]) simp
  have rest: "sorted (map phase (inserted (sent (chain fs s'))))
      \<and> phase ` set (inserted (sent (chain fs s'))) \<subseteq> set ps" for s'
    using Cons.IH Cons.prems by simp
  have le: "\<forall>q\<in>set ps. p \<le> q" using Cons.prems by simp
  show ?case
  proof (cases "returned (f s)")
    case False
    with blk own show ?thesis
      by (auto simp: sent_seq inserted_append inserted_Nil)
  next
    case True
    have "sorted (map phase (inserted (sent (f s)))
        @ map phase (inserted (sent (chain fs (final (f s))))))"
      using own rest [of "final (f s)"] blk le
      by (fastforce simp: sorted_append)
    with True blk rest [of "final (f s)"] show ?thesis
      by (auto simp: sent_seq inserted_append)
  qed
qed

lemma sorted_all_before:
  "sorted (map phase xs) \<Longrightarrow> phase a < phase b \<Longrightarrow> all_before a b xs"
proof (induction xs)
  case Nil
  show ?case by (simp add: all_before_def)
next
  case (Cons x xs)
  show ?case
  proof (cases "x = b")
    case True
    have "\<forall>y\<in>set xs. phase b \<le> phase y" using Cons.prems(1) True by simp
    with Cons.prems(2) have "a \<notin> set xs" by auto
    with True Cons.prems(2) show ?thesis by (auto simp: all_before_def)
  next
    case False
    with Cons show ?thesis by (simp add: all_before_def)
  qed
qed

lemma block:
  "(\<And>s. set (inserted (sent (f s))) \<subseteq> {t}) \<Longrightarrow>
   \<forall>s. phase ` set (inserted (sent (f s))) \<subseteq> {phase t}"
  by blast

lemma generate_all_sorted:
  "sorted (map phase (inserted (sent (generate_all e d))))"
proof (cases "connects e")
  case False
  then show ?thesis by (simp add: generate_all_def inserted_Nil)
next
  case True
  have steps: "list_all2 (\<lambda>f p. \<forall>s. phase ` set (inserted (sent (f s))) \<subseteq> {p})
      [clean_database e, generate_artists e 60, generate_producers e 50,
       generate_studios e 20, generate_albums e 100, generate_songs e 500,
       generate_recording_sessions e 150, generate_staff e 40, generate_engineers e 15,
       generate_managers e 10, generate_distributions e 10,
       generate_song_distributions e 300, generate_contracts e 50,
       generate_artist_albums e 150]
      [0, phase Artist, phase Producer, phase Studio, phase Album, phase Song,
       phase RecordingSession, phase Staff, phase Engineer, phase Manager,
       phase Distribution, phase SongDistribution, phase Contract, phase ArtistAlbum]"
    unfolding list_all2_Cons list.rel_inject
    apply (intro conjI)
                 apply (simp add: inserted_clean_database)
                apply (rule block, simp only: generate_artists_def,
        rule for_each_inserts, rule inserted_artist_step)
               apply (rule block, simp only: generate_producers_def,
        rule for_each_inserts, rule inserted_producer_step)
              apply (rule block, simp only: generate_studios_def,
        rule for_each_inserts, rule inserted_studio_step)
             apply (rule block, simp only: generate_albums_def,
        rule for_each_inserts, rule inserted_album_step)
            apply (rule block, rule inserted_generate_songs)
           apply (rule block, simp only: generate_recording_sessions_def,
        rule for_each_inserts, rule inserted_session_step)
          apply (rule block, simp only: generate_staff_def,
        rule for_each_inserts, rule inserted_staff_step)
         apply (rule block, simp only: generate_engineers_def,
        rule for_each_inserts, rule inserted_engineer_step)
        apply (rule block, simp only: generate_managers_def,
        rule for_each_inserts, rule inserted_manager_step)
       apply (rule block, simp only: generate_distributions_def,
        rule for_each_inserts, rule inserted_distribution_step)
      apply (rule block, simp only: generate_song_distributions_def,
        rule for_each_inserts, rule inserted_song_distribution_step)
     apply (rule block, simp only: generate_contracts_def,
        rule for_each_inserts, rule inserted_contract_step)
    apply (rule block, simp only: generate_artist_albums_def,
        rule for_each_inserts, rule inserted_artist_album_step)
    apply simp
    done
  have "sorted [0, phase Artist, phase Producer, phase Studio, phase Album, phase Song,
       phase RecordingSession, phase Staff, phase Engineer, phase Manager,
       phase Distribution, phase SongDistribution, phase Contract, phase ArtistAlbum]"
    by simp
  with steps show ?thesis
    using True by (simp only: generate_all_def if_False not_True_eq_False chain_phases)
qed


subsection \<open>What the steps keep\<close>

lemma extends_refl: "extends s s"
  by (simp add: extends_def)

lemma extends_trans: "extends s s' \<Longrightarrow> extends s' s'' \<Longrightarrow> extends s s''"
  by (auto simp: extends_def)

lemma supplies_iff:
  "Artist \<in> supplies s = (artist_ids s \<noteq> [])"
  "Producer \<in> supplies s = (producer_ids s \<noteq> [])"
  "Studio \<in> supplies s = (studio_ids s \<noteq> [])"
  "Album \<in> supplies s = (album_ids s \<noteq> [])"
  "Staff \<in> supplies s = (staff_ids s \<noteq> [])"
  "Distribution \<in> supplies s = (distribution_ids s \<noteq> [])"
  "Song \<in> supplies s = (song_keys (db s) \<noteq> [])"
  by (simp_all add: supplies_def)

lemma for_each_extends:
  assumes "\<And>x s. extends s (final (body x s))"
  shows "extends s (final (for_each body xs s))"
proof (induction xs arbitrary: s)
  case Nil
  show ?case by (simp add: extends_refl)
next
  case (Cons x xs)
  show ?case
    using assms [of s x] Cons.IH [of "final (body x s)"]
    by (auto simp: final_seq intro: extends_trans)
qed

text \<open>No statement but \<open>TRUNCATE\<close> removes a song key or duplicates one.\<close>

lemma pg_exec_keeps:
  assumes "pg_exec e d q = (r, d')" and "\<forall>t. q \<noteq> Truncate t"
  shows "set (song_keys d) \<subseteq> set (song_keys d')
         \<and> (distinct (song_keys d) \<longrightarrow> distinct (song_keys d'))"
  using assms
  by (cases q) (auto simp: pg_exec_def split: if_splits option.splits prod.splits)

lemma execute_keeps:
  assumes "seed_execute_query e q s = (r, s')" and "\<forall>t. q \<noteq> Truncate t"
  shows "extends s s' \<and> artist_ids s' = artist_ids s \<and> producer_ids s' = producer_ids s
         \<and> studio_ids s' = studio_ids s \<and> album_ids s' = album_ids s
         \<and> staff_ids s' = staff_ids s \<and> distribution_ids s' = distribution_ids s
         \<and> engineer_ids s' = engineer_ids s \<and> manager_ids s' = manager_ids s
         \<and> rand_calls s' = rand_calls s \<and> fake_calls s' = fake_calls s"
proof -
  obtain d' where d': "pg_exec e (db s) q = (r, d')" and s': "s' = s\<lparr>db := d'\<rparr>"
    using assms(1) by (auto simp: seed_execute_query_def split: prod.splits)
  have k: "set (song_keys (db s)) \<subseteq> set (song_keys d')
         \<and> (distinct (song_keys (db s)) \<longrightarrow> distinct (song_keys d'))"
    using pg_exec_keeps [OF d' assms(2)] .
  have "supplies s \<subseteq> supplies s'"
  proof
    fix t assume "t \<in> supplies s"
    then show "t \<in> supplies s'"
      using k by (cases t) (auto simp: supplies_def s')
  qed
  with k show ?thesis by (simp add: extends_def s')
qed

lemma ids_of_drew: "ids_of t (drew r f s) = ids_of t s"
  by (cases t) (simp_all add: drew_def)

lemma supplies_drew: "supplies (drew r f s) = supplies s"
  by (simp add: supplies_def ids_of_drew)

lemma db_drew: "db (drew r f s) = db s"
  by (simp add: drew_def)

lemma extends_drew: "extends s s' \<Longrightarrow> extends (drew r f s) s'"
  by (simp add: extends_def supplies_drew db_drew)

lemma extends_drew': "extends s (drew r f s)"
  by (simp add: extends_def supplies_drew db_drew)

lemma extends_attempt:
  assumes "\<forall>t. q \<noteq> Truncate t" and "\<And>s'. extends s' (k s')"
  shows "extends s (final (attempt e q k s))"
proof -
  obtain r s' where x: "seed_execute_query e q s = (r, s')" by (cases "seed_execute_query e q s")
  have "extends s s'" using execute_keeps [OF x assms(1)] by simp
  moreover have "extends s' (k s')" by (rule assms(2))
  ultimately show ?thesis
    using x by (cases r) (auto simp: attempt_def intro: extends_trans)
qed

lemma extends_insert_returning:
  assumes "\<And>i s'. extends s' (k i s')"
  shows "extends s (final (insert_returning e t ps k s))"
proof -
  obtain r s' where x: "seed_execute_query e (Insert t ps) s = (r, s')"
    by (cases "seed_execute_query e (Insert t ps) s")
  have "extends s s'" using execute_keeps [OF x] by simp
  then show ?thesis
    using x assms by (auto simp: insert_returning_def split: sum.splits intro: extends_trans)
qed

lemma extends_append:
  "extends s (s\<lparr>artist_ids := artist_ids s @ [k]\<rparr>)"
  "extends s (s\<lparr>producer_ids := producer_ids s @ [k]\<rparr>)"
  "extends s (s\<lparr>studio_ids := studio_ids s @ [k]\<rparr>)"
  "extends s (s\<lparr>album_ids := album_ids s @ [k]\<rparr>)"
  "extends s (s\<lparr>staff_ids := staff_ids s @ [k]\<rparr>)"
  "extends s (s\<lparr>distribution_ids := distribution_ids s @ [k]\<rparr>)"
  "extends s (s\<lparr>engineer_ids := engineer_ids s @ [k]\<rparr>)"
  "extends s (s\<lparr>manager_ids := manager_ids s @ [k]\<rparr>)"
  by (auto simp: extends_def supplies_def; rename_tac t; case_tac t; simp)+

lemma extends_step_returning:
  assumes "\<And>i s'. extends s' (k i s')"
  shows "extends s (final (insert_returning e t ps k (drew r f s)))"
  using extends_drew' [of s r f] extends_insert_returning [of k "drew r f s" e t ps] assms
  by (blast intro: extends_trans)

lemma extends_step_attempt:
  assumes "\<forall>t. q \<noteq> Truncate t" and "\<And>s'. extends s' (k s')"
  shows "extends s (final (attempt e q k (drew r f s)))"
  using extends_drew' [of s r f] extends_attempt [of q k "drew r f s" e] assms
  by (blast intro: extends_trans)

lemma extends_artist_step: "extends s (final (artist_step e i s))"
  by (simp add: artist_step_def Let_def extends_step_returning extends_append)

lemma extends_producer_step: "extends s (final (producer_step e i s))"
  by (simp add: producer_step_def Let_def extends_step_returning extends_append)

lemma extends_studio_step: "extends s (final (studio_step e i s))"
  by (simp add: studio_step_def Let_def extends_step_returning extends_append)

lemma extends_album_step: "extends s (final (album_step e i s))"
  by (simp add: album_step_def Let_def extends_step_returning extends_append extends_drew')

lemma extends_song_step: "extends s (final (song_step e i s))"
  by (simp add: song_step_def Let_def extends_step_attempt extends_refl)

lemma extends_session_step: "extends s (final (session_step e i s))"
  by (simp add: session_step_def Let_def extends_step_attempt extends_refl extends_drew')

lemma extends_staff_step: "extends s (final (staff_step e i s))"
  by (simp add: staff_step_def Let_def extends_step_returning extends_append)

lemma extends_engineer_step: "extends s (final (engineer_step e i s))"
  by (simp add: engineer_step_def Let_def extends_step_attempt extends_append extends_drew')

lemma extends_manager_step: "extends s (final (manager_step e i s))"
  by (simp add: manager_step_def Let_def extends_step_attempt extends_append)

lemma extends_distribution_step: "extends s (final (distribution_step e p s))"
  by (simp add: distribution_step_def Let_def final_swallow extends_step_returning
      extends_append)

lemma extends_generate_songs: "extends s (final (generate_songs e n s))"
proof -
  have a: "extends s' (final (attempt e q (\<lambda>s'. s') s'))"
    if "\<forall>t. q \<noteq> Truncate t" for q s'
    using that by (simp add: extends_attempt extends_refl)
  have l: "extends s' (final (for_each (song_step e) [0..<n] s'))" for s'
    by (rule for_each_extends) (rule extends_song_step)
  have "extends s (final (attempt e DisableTrigger (\<lambda>s'. s') s))" by (simp add: a)
  moreover have "extends (final (attempt e DisableTrigger (\<lambda>s'. s') s))
      (final (for_each (song_step e) [0..<n] (final (attempt e DisableTrigger (\<lambda>s'. s') s))))"
    by (rule l)
  moreover have "extends s' (final (attempt e EnableTrigger (\<lambda>s'. s') s'))" for s'
    by (simp add: a)
  ultimately show ?thesis
    by (auto simp: generate_songs_def final_seq returned_attempt intro: extends_trans)
qed

subsection \<open>Runs in which the storage raises on nothing\<close>

lemma for_each_returned:
  assumes "\<And>x s. I s \<Longrightarrow> returned (body x s) \<and> I (final (body x s))" and "I s"
  shows "returned (for_each body xs s) \<and> I (final (for_each body xs s))"
  using assms(2)
proof (induction xs arbitrary: s)
  case Nil
  then show ?case by simp
next
  case (Cons x xs)
  from assms(1) [OF Cons.prems, of x]
  have r: "returned (body x s)" and i: "I (final (body x s))" by simp_all
  from Cons.IH [OF i] r show ?case by (simp add: returned_seq final_seq)
qed

lemma for_each_produces:
  assumes "\<And>x s. I s \<Longrightarrow>
      returned (body x s) \<and> I (final (body x s)) \<and> P (final (body x s))"
    and "I s" and "xs \<noteq> []"
  shows "P (final (for_each body xs s))"
  using assms(2,3)
proof (induction xs arbitrary: s)
  case Nil
  then show ?case by simp
next
  case (Cons x xs)
  from assms(1) [OF Cons.prems(1), of x]
  have r: "returned (body x s)" and i: "I (final (body x s))" and p: "P (final (body x s))"
    by simp_all
  show ?case
  proof (cases "xs = []")
    case True
    with r p show ?thesis by (simp add: final_seq)
  next
    case False
    from Cons.IH [OF i False] r show ?thesis by (simp add: final_seq)
  qed
qed

lemma for_each_exact:
  assumes "\<And>x s. returned (body x s) \<Longrightarrow> inserted (sent (body x s)) = [X]"
  shows "returned (for_each body xs s) \<Longrightarrow>
         inserted (sent (for_each body xs s)) = replicate (length xs) X"
proof (induction xs arbitrary: s)
  case Nil
  show ?case by (simp add: inserted_Nil)
next
  case (Cons x xs)
  from Cons.prems have r: "returned (body x s)"
    and r': "returned (for_each body xs (final (body x s)))"
    by (simp_all add: returned_seq)
  from assms [OF r] Cons.IH [OF r'] r show ?case
    by (simp add: sent_seq inserted_append)
qed

lemma calm_execute:
  assumes "\<And>k. \<not> raises e k"
  shows "seed_execute_query e q s
         = (fst (pg_run e (db s) q),
            s\<lparr>db := (snd (pg_run e (db s) q))\<lparr>clock := Suc (clock (db s))\<rparr>\<rparr>)"
  using assms by (simp add: seed_execute_query_def pg_exec_def split: prod.splits)

lemma calm_insert_returning:
  assumes "\<And>k. \<not> raises e k" and "returns_id t"
  shows "insert_returning e t ps k s
         = Done [Insert t ps]
             (k (serial (db s) t)
                (s\<lparr>db := (db s)\<lparr>serial := (serial (db s))(t := serial (db s) t + 1),
                               clock := Suc (clock (db s))\<rparr>\<rparr>))"
  using assms by (simp add: insert_returning_def calm_execute)

lemma returned_insert_returning_sent:
  "inserted (sent (insert_returning e t ps k s)) = [t]"
  by (simp add: sent_insert_returning inserted_def)

lemma artist_step_calm:
  assumes "\<And>k. \<not> raises e k"
  shows "returned (artist_step e i s) \<and> Artist \<in> supplies (final (artist_step e i s))"
  using assms
  by (simp add: artist_step_def Let_def calm_insert_returning returns_id_def supplies_iff)

lemma producer_step_calm:
  assumes "\<And>k. \<not> raises e k"
  shows "returned (producer_step e i s) \<and> Producer \<in> supplies (final (producer_step e i s))"
  using assms
  by (simp add: producer_step_def Let_def calm_insert_returning returns_id_def supplies_iff)

lemma studio_step_calm:
  assumes "\<And>k. \<not> raises e k"
  shows "returned (studio_step e i s) \<and> Studio \<in> supplies (final (studio_step e i s))"
  using assms
  by (simp add: studio_step_def Let_def calm_insert_returning returns_id_def supplies_iff)

lemma staff_step_calm:
  assumes "\<And>k. \<not> raises e k"
  shows "returned (staff_step e i s) \<and> Staff \<in> supplies (final (staff_step e i s))"
  using assms
  by (simp add: staff_step_def Let_def calm_insert_returning returns_id_def supplies_iff)

lemma album_step_calm:
  assumes "\<And>k. \<not> raises e k" and "Producer \<in> supplies s"
  shows "returned (album_step e i s) \<and> Album \<in> supplies (final (album_step e i s))"
  using assms
  by (simp add: album_step_def Let_def calm_insert_returning returns_id_def supplies_iff)

lemma distribution_step_calm:
  assumes "\<And>k. \<not> raises e k"
  shows "returned (distribution_step e p s)
         \<and> Distribution \<in> supplies (final (distribution_step e p s))"
  using assms
  by (simp add: distribution_step_def Let_def calm_insert_returning returns_id_def
      supplies_iff)

lemma song_step_returned: "Album \<in> supplies s \<Longrightarrow> returned (song_step e i s)"
  by (simp add: song_step_def Let_def returned_attempt supplies_iff)

lemma session_step_returned:
  "{Artist, Producer, Studio} \<subseteq> supplies s \<Longrightarrow> returned (session_step e i s)"
  by (simp add: session_step_def Let_def returned_attempt supplies_iff)

lemma engineer_step_returned: "Studio \<in> supplies s \<Longrightarrow> returned (engineer_step e i s)"
  by (simp add: engineer_step_def Let_def returned_attempt supplies_iff)

lemma manager_step_returned: "returned (manager_step e i s)"
  by (simp add: manager_step_def Let_def returned_attempt)

lemma extends_supplies: "extends s s' \<Longrightarrow> N \<subseteq> supplies s \<Longrightarrow> N \<subseteq> supplies s'"
  by (auto simp: extends_def)

lemma chain_append: "chain (fs @ gs) s = seq (chain fs s) (chain gs)"
proof (induction fs arbitrary: s)
  case Nil
  show ?case by (cases "chain gs s") (simp_all add: seq.simps)
next
  case (Cons f fs)
  show ?case
    by (cases "f s") (auto simp: Cons.IH seq.simps split: outcome.splits)
qed

lemma returned_clean_database: "returned (clean_database e s)"
  by (simp add: clean_database_def returned_swallow)

lemma generate_artists_calm:
  assumes "\<And>k. \<not> raises e k"
  shows "returned (generate_artists e n s)"
    and "extends s (final (generate_artists e n s))"
    and "0 < n \<Longrightarrow> Artist \<in> supplies (final (generate_artists e n s))"
    and "inserted (sent (generate_artists e n s)) = replicate n Artist"
proof -
  show r: "returned (generate_artists e n s)"
    unfolding generate_artists_def
    using for_each_returned [of "\<lambda>s. True" "artist_step e" s "[0..<n]"] artist_step_calm [OF assms]
    by simp
  show "extends s (final (generate_artists e n s))"
    unfolding generate_artists_def by (rule for_each_extends) (rule extends_artist_step)
  show "0 < n \<Longrightarrow> Artist \<in> supplies (final (generate_artists e n s))"
    unfolding generate_artists_def
    by (rule for_each_produces [of "\<lambda>s. True"]) (simp_all add: artist_step_calm [OF assms])
  show "inserted (sent (generate_artists e n s)) = replicate n Artist"
    using r unfolding generate_artists_def
    using for_each_exact [of "artist_step e" Artist "[0..<n]" s]
    by (simp add: artist_step_def Let_def sent_insert_returning inserted_def)
qed

lemma generate_producers_calm:
  assumes "\<And>k. \<not> raises e k"
  shows "returned (generate_producers e n s)"
    and "extends s (final (generate_producers e n s))"
    and "0 < n \<Longrightarrow> Producer \<in> supplies (final (generate_producers e n s))"
proof -
  show "returned (generate_producers e n s)"
    unfolding generate_producers_def
    using for_each_returned [of "\<lambda>s. True" "producer_step e" s "[0..<n]"]
      producer_step_calm [OF assms]
    by simp
  show "extends s (final (generate_producers e n s))"
    unfolding generate_producers_def by (rule for_each_extends) (rule extends_producer_step)
  show "0 < n \<Longrightarrow> Producer \<in> supplies (final (generate_producers e n s))"
    unfolding generate_producers_def
    by (rule for_each_produces [of "\<lambda>s. True"]) (simp_all add: producer_step_calm [OF assms])
qed

lemma generate_studios_calm:
  assumes "\<And>k. \<not> raises e k"
  shows "returned (generate_studios e n s)"
    and "extends s (final (generate_studios e n s))"
    and "0 < n \<Longrightarrow> Studio \<in> supplies (final (generate_studios e n s))"
proof -
  show "returned (generate_studios e n s)"
    unfolding generate_studios_def
    using for_each_returned [of "\<lambda>s. True" "studio_step e" s "[0..<n]"]
      studio_step_calm [OF assms]
    by simp
  show "extends s (final (generate_studios e n s))"
    unfolding generate_studios_def by (rule for_each_extends) (rule extends_studio_step)
  show "0 < n \<Longrightarrow> Studio \<in> supplies (final (generate_studios e n s))"
    unfolding generate_studios_def
    by (rule for_each_produces [of "\<lambda>s. True"]) (simp_all add: studio_step_calm [OF assms])
qed

lemma generate_albums_calm:
  assumes "\<And>k. \<not> raises e k" and "Producer \<in> supplies s"
  shows "returned (generate_albums e n s)"
    and "extends s (final (generate_albums e n s))"
    and "0 < n \<Longrightarrow> Album \<in> supplies (final (generate_albums e n s))"
    and "inserted (sent (generate_albums e n s)) = replicate n Album"
proof -
  have step: "Producer \<in> supplies s' \<Longrightarrow>
      returned (album_step e i s') \<and> Producer \<in> supplies (final (album_step e i s'))
      \<and> Album \<in> supplies (final (album_step e i s'))" for i s'
    using album_step_calm [OF assms(1), of s' i] extends_album_step [of s' e i]
    by (auto simp: extends_def)
  show r: "returned (generate_albums e n s)"
    unfolding generate_albums_def
    using for_each_returned [of "\<lambda>s. Producer \<in> supplies s" "album_step e" s "[0..<n]"]
      step assms(2)
    by simp
  show "extends s (final (generate_albums e n s))"
    unfolding generate_albums_def by (rule for_each_extends) (rule extends_album_step)
  show "0 < n \<Longrightarrow> Album \<in> supplies (final (generate_albums e n s))"
    unfolding generate_albums_def
    by (rule for_each_produces [of "\<lambda>s. Producer \<in> supplies s"]) (simp_all add: step assms(2))
  have one: "returned (album_step e i s') \<Longrightarrow> inserted (sent (album_step e i s')) = [Album]"
    for i s'
    by (simp add: album_step_def Let_def sent_insert_returning inserted_def split: if_splits)
  show "inserted (sent (generate_albums e n s)) = replicate n Album"
    using r unfolding generate_albums_def
    using for_each_exact [of "album_step e" Album "[0..<n]" s] one
    by simp
qed

lemma generate_songs_returned:
  assumes "Album \<in> supplies s"
  shows "returned (generate_songs e n s)"
proof -
  have a: "Album \<in> supplies (final (attempt e DisableTrigger (\<lambda>s'. s') s))"
    using extends_attempt [of DisableTrigger "\<lambda>s'. s'" s e] assms
    by (auto simp: extends_def extends_refl)
  have step: "Album \<in> supplies s' \<Longrightarrow>
      returned (song_step e i s') \<and> Album \<in> supplies (final (song_step e i s'))" for i s'
    using song_step_returned [of s' e i] extends_song_step [of s' e i]
    by (auto simp: extends_def)
  have "returned (for_each (song_step e) [0..<n]
      (final (attempt e DisableTrigger (\<lambda>s'. s') s)))"
    using for_each_returned [of "\<lambda>s. Album \<in> supplies s" "song_step e" _ "[0..<n]"] step a
    by simp
  then show ?thesis
    by (simp add: generate_songs_def returned_seq returned_attempt)
qed

lemma generate_recording_sessions_calm:
  assumes "{Artist, Producer, Studio} \<subseteq> supplies s"
  shows "returned (generate_recording_sessions e n s)"
    and "extends s (final (generate_recording_sessions e n s))"
proof -
  have step: "{Artist, Producer, Studio} \<subseteq> supplies s' \<Longrightarrow>
      returned (session_step e i s')
      \<and> {Artist, Producer, Studio} \<subseteq> supplies (final (session_step e i s'))" for i s'
    using session_step_returned [of s' e i] extends_session_step [of s' e i]
    by (auto simp: extends_def)
  show "returned (generate_recording_sessions e n s)"
    unfolding generate_recording_sessions_def
    using for_each_returned
      [of "\<lambda>s. {Artist, Producer, Studio} \<subseteq> supplies s" "session_step e" s "[0..<n]"]
      step assms
    by simp
  show "extends s (final (generate_recording_sessions e n s))"
    unfolding generate_recording_sessions_def
    by (rule for_each_extends) (rule extends_session_step)
qed

lemma generate_staff_calm:
  assumes "\<And>k. \<not> raises e k"
  shows "returned (generate_staff e n s)"
    and "extends s (final (generate_staff e n s))"
    and "0 < n \<Longrightarrow> Staff \<in> supplies (final (generate_staff e n s))"
    and "inserted (sent (generate_staff e n s)) = replicate n Staff"
proof -
  show r: "returned (generate_staff e n s)"
    unfolding generate_staff_def
    using for_each_returned [of "\<lambda>s. True" "staff_step e" s "[0..<n]"] staff_step_calm [OF assms]
    by simp
  show "extends s (final (generate_staff e n s))"
    unfolding generate_staff_def by (rule for_each_extends) (rule extends_staff_step)
  show "0 < n \<Longrightarrow> Staff \<in> supplies (final (generate_staff e n s))"
    unfolding generate_staff_def
    by (rule for_each_produces [of "\<lambda>s. True"]) (simp_all add: staff_step_calm [OF assms])
  show "inserted (sent (generate_staff e n s)) = replicate n Staff"
    using r unfolding generate_staff_def
    using for_each_exact [of "staff_step e" Staff "[0..<n]" s]
    by (simp add: staff_step_def Let_def sent_insert_returning inserted_def)
qed

lemma generate_engineers_calm:
  assumes "Studio \<in> supplies s"
  shows "returned (generate_engineers e n s)"
    and "extends s (final (generate_engineers e n s))"
proof -
  have step: "Studio \<in> supplies s' \<Longrightarrow>
      returned (engineer_step e i s') \<and> Studio \<in> supplies (final (engineer_step e i s'))"
    for i s'
    using engineer_step_returned [of s' e i] extends_engineer_step [of s' e i]
    by (auto simp: extends_def)
  show "returned (generate_engineers e n s)"
    unfolding generate_engineers_def
    using for_each_returned [of "\<lambda>s. Studio \<in> supplies s" "engineer_step e" s] step assms
    by simp
  show "extends s (final (generate_engineers e n s))"
    unfolding generate_engineers_def
    by (rule for_each_extends) (rule extends_engineer_step)
qed

lemma generate_managers_calm:
  shows "returned (generate_managers e n s)"
    and "extends s (final (generate_managers e n s))"
proof -
  show "returned (generate_managers e n s)"
    unfolding generate_managers_def
    using for_each_returned [of "\<lambda>s. True" "manager_step e" s] manager_step_returned
    by simp
  show "extends s (final (generate_managers e n s))"
    unfolding generate_managers_def
    by (rule for_each_extends) (rule extends_manager_step)
qed

lemma generate_distributions_calm:
  assumes "\<And>k. \<not> raises e k"
  shows "returned (generate_distributions e n s)"
    and "extends s (final (generate_distributions e n s))"
    and "0 < n \<Longrightarrow> Distribution \<in> supplies (final (generate_distributions e n s))"
proof -
  show "returned (generate_distributions e n s)"
    unfolding generate_distributions_def
    using for_each_returned [of "\<lambda>s. True" "distribution_step e" s]
      distribution_step_calm [OF assms]
    by simp
  show "extends s (final (generate_distributions e n s))"
    unfolding generate_distributions_def
    by (rule for_each_extends) (rule extends_distribution_step)
  show "0 < n \<Longrightarrow> Distribution \<in> supplies (final (generate_distributions e n s))"
    unfolding generate_distributions_def
    by (rule for_each_produces [of "\<lambda>s. True"])
      (simp_all add: distribution_step_calm [OF assms] platforms_def)
qed

lemma chain_Cons_sent:
  "returned (f s) \<Longrightarrow> sent (chain (f # fs) s) = sent (f s) @ sent (chain fs (final (f s)))"
  by (simp add: sent_seq)

lemma chain_head_inserted:
  "set (inserted (sent (f s))) \<subseteq> set (inserted (sent (chain (f # fs) s)))"
  by (auto simp: sent_seq inserted_append)

lemma chain_tail_inserted:
  "returned (f s) \<Longrightarrow>
   set (inserted (sent (chain fs (final (f s))))) \<subseteq> set (inserted (sent (chain (f # fs) s)))"
  by (auto simp: sent_seq inserted_append)

text \<open>
  When the connection is made and the storage raises on nothing, the run reaches the
  staff: albums have been inserted, and then staff.
\<close>

lemma calm_run_inserts_album_and_staff:
  assumes calm: "\<And>k. \<not> raises e k" and "connects e"
  shows "Album \<in> set (inserted (sent (generate_all e d)))
         \<and> Staff \<in> set (inserted (sent (generate_all e d)))"
proof -
  define s0 where "s0 = DataGenerator d"
  define s1 where "s1 = final (clean_database e s0)"
  define s2 where "s2 = final (generate_artists e 60 s1)"
  define s3 where "s3 = final (generate_producers e 50 s2)"
  define s4 where "s4 = final (generate_studios e 20 s3)"
  define s5 where "s5 = final (generate_albums e 100 s4)"
  define s6 where "s6 = final (generate_songs e 500 s5)"
  define s7 where "s7 = final (generate_recording_sessions e 150 s6)"
  define rest8 where "rest8 = [generate_engineers e 15, generate_managers e 10,
     generate_distributions e 10, generate_song_distributions e 300,
     generate_contracts e 50, generate_artist_albums e 150]"
  define rest5 where "rest5 = generate_songs e 500 # generate_recording_sessions e 150
     # generate_staff e 40 # rest8"
  have a2: "Artist \<in> supplies s2"
    unfolding s2_def by (rule generate_artists_calm(3) [OF calm]) simp
  have e3: "extends s2 s3" unfolding s3_def by (rule generate_producers_calm(2) [OF calm])
  have p3: "Producer \<in> supplies s3"
    unfolding s3_def by (rule generate_producers_calm(3) [OF calm]) simp
  have e4: "extends s3 s4" unfolding s4_def by (rule generate_studios_calm(2) [OF calm])
  have t4: "Studio \<in> supplies s4"
    unfolding s4_def by (rule generate_studios_calm(3) [OF calm]) simp
  have all4: "{Artist, Producer, Studio} \<subseteq> supplies s4"
    using a2 e3 p3 e4 t4 by (auto simp: extends_def)
  then have p4: "Producer \<in> supplies s4" by simp
  have e5: "extends s4 s5" unfolding s5_def by (rule generate_albums_calm(2) [OF calm p4])
  have b5: "Album \<in> supplies s5"
    unfolding s5_def by (rule generate_albums_calm(3) [OF calm p4]) simp
  have e6: "extends s5 s6" unfolding s6_def by (rule extends_generate_songs)
  have all6: "{Artist, Producer, Studio} \<subseteq> supplies s6"
    using all4 e5 e6 by (auto simp: extends_def)
  have r1: "returned (clean_database e s0)" by (rule returned_clean_database)
  have r2: "returned (generate_artists e 60 s1)" by (rule generate_artists_calm(1) [OF calm])
  have r3: "returned (generate_producers e 50 s2)"
    by (rule generate_producers_calm(1) [OF calm])
  have r4: "returned (generate_studios e 20 s3)" by (rule generate_studios_calm(1) [OF calm])
  have r5: "returned (generate_albums e 100 s4)"
    by (rule generate_albums_calm(1) [OF calm p4])
  have r6: "returned (generate_songs e 500 s5)" by (rule generate_songs_returned [OF b5])
  have r7: "returned (generate_recording_sessions e 150 s6)"
    by (rule generate_recording_sessions_calm(1) [OF all6])
  have albums: "Album \<in> set (inserted (sent (generate_albums e 100 s4)))"
    by (simp add: generate_albums_calm(4) [OF calm p4])
  have staff: "Staff \<in> set (inserted (sent (generate_staff e 40 s7)))"
    by (simp add: generate_staff_calm(4) [OF calm])
  have c8: "Staff \<in> set (inserted (sent (chain (generate_staff e 40 # rest8) s7)))"
    using staff chain_head_inserted by blast
  then have c7: "Staff \<in> set (inserted (sent
      (chain (generate_recording_sessions e 150 # generate_staff e 40 # rest8) s6)))"
    using chain_tail_inserted [of "generate_recording_sessions e 150" s6 "generate_staff e 40 # rest8"] r7
    by (auto simp: s7_def)
  then have c6: "Staff \<in> set (inserted (sent (chain rest5 s5)))"
    using chain_tail_inserted [of "generate_songs e 500" s5
        "generate_recording_sessions e 150 # generate_staff e 40 # rest8"] r6
    by (auto simp: s6_def rest5_def)
  have c5: "{Album, Staff} \<subseteq> set (inserted (sent
      (chain (generate_albums e 100 # rest5) s4)))"
    using c6 albums r5 chain_tail_inserted [of "generate_albums e 100" s4 rest5]
      chain_head_inserted [of "generate_albums e 100" s4 rest5]
    by (auto simp: s5_def)
  then have c4: "{Album, Staff} \<subseteq> set (inserted (sent
      (chain (generate_studios e 20 # generate_albums e 100 # rest5) s3)))"
    using chain_tail_inserted [of "generate_studios e 20" s3 "generate_albums e 100 # rest5"] r4
    by (auto simp: s4_def)
  then have c3: "{Album, Staff} \<subseteq> set (inserted (sent
      (chain (generate_producers e 50 # generate_studios e 20 # generate_albums e 100
         # rest5) s2)))"
    using chain_tail_inserted [of "generate_producers e 50" s2
        "generate_studios e 20 # generate_albums e 100 # rest5"] r3
    by (auto simp: s3_def)
  then have c2: "{Album, Staff} \<subseteq> set (inserted (sent
      (chain (generate_artists e 60 # generate_producers e 50 # generate_studios e 20
         # generate_albums e 100 # rest5) s1)))"
    using chain_tail_inserted [of "generate_artists e 60" s1
        "generate_producers e 50 # generate_studios e 20 # generate_albums e 100 # rest5"] r2
    by (auto simp: s2_def)
  then have c1: "{Album, Staff} \<subseteq> set (inserted (sent
      (chain (clean_database e # generate_artists e 60 # generate_producers e 50
         # generate_studios e 20 # generate_albums e 100 # rest5) s0)))"
    using chain_tail_inserted [of "clean_database e" s0
        "generate_artists e 60 # generate_producers e 50 # generate_studios e 20
          # generate_albums e 100 # rest5"] r1
    by (auto simp: s1_def)
  then show ?thesis
    using assms(2) by (simp add: generate_all_def s0_def rest5_def rest8_def)
qed

text \<open>
  C2, as the code has it. In every run of \<open>generate_all\<close>, whatever the storage does, the
  insertions come in the order of the calls: Artist, Producer, Studio, Album, Song,
  RecordingSession, Staff, Engineer, Manager, Distribution, SongDistribution, Contract,
  ArtistAlbum. Every insertion into a table earlier in this order precedes every insertion
  into a later one, so each entity is inserted after the entities it refers to; Staff and
  Distribution come after Album, Song and RecordingSession.
\<close>

theorem generate_all_inserts_in_call_order:
  "phase a < phase b \<Longrightarrow> all_before a b (inserted (sent (generate_all e d)))"
  using generate_all_sorted [of e d] by (rule sorted_all_before)

theorem generate_all_inserts_in_call_order_witness:
  "phase Album < phase Staff \<and> phase Producer < phase Album
   \<and> phase Song < phase SongDistribution
   \<and> all_before Album Staff (inserted (sent (generate_all calm empty_pg)))
   \<and> all_before RecordingSession Distribution (inserted (sent (generate_all calm empty_pg)))
   \<and> all_before Producer Album (inserted (sent (generate_all calm empty_pg)))
   \<and> all_before Song SongDistribution (inserted (sent (generate_all calm empty_pg)))
   \<and> Album \<in> set (inserted (sent (generate_all calm empty_pg)))
   \<and> Staff \<in> set (inserted (sent (generate_all calm empty_pg)))"
proof -
  have "\<And>k. \<not> raises calm k" and "connects calm" by (simp_all add: calm_def)
  then have "Album \<in> set (inserted (sent (generate_all calm empty_pg)))
         \<and> Staff \<in> set (inserted (sent (generate_all calm empty_pg)))"
    by (rule calm_run_inserts_album_and_staff)
  then show ?thesis
    using generate_all_inserts_in_call_order [of Album Staff calm empty_pg]
      generate_all_inserts_in_call_order [of RecordingSession Distribution calm empty_pg]
      generate_all_inserts_in_call_order [of Producer Album calm empty_pg]
      generate_all_inserts_in_call_order [of Song SongDistribution calm empty_pg]
    by simp
qed

text \<open>
  The claim as stated fails. In the run of \<open>generate_all\<close> on an empty database whose
  storage raises on nothing, albums are inserted and staff are inserted, and not every
  Staff insertion precedes every Album insertion: a Staff insertion follows the first
  Album insertion.
\<close>

theorem staff_inserted_after_albums:
  "\<not> all_before Staff Album (inserted (sent (generate_all calm empty_pg)))"
proof -
  have "\<And>k. \<not> raises calm k" and "connects calm" by (simp_all add: calm_def)
  then have m: "Album \<in> set (inserted (sent (generate_all calm empty_pg)))
         \<and> Staff \<in> set (inserted (sent (generate_all calm empty_pg)))"
    by (rule calm_run_inserts_album_and_staff)
  have b: "all_before Album Staff (inserted (sent (generate_all calm empty_pg)))"
    using generate_all_sorted [of calm empty_pg] by (rule sorted_all_before) simp
  have "all_before x y zs \<Longrightarrow> x \<in> set zs \<Longrightarrow> y \<in> set zs \<Longrightarrow> x \<noteq> y \<Longrightarrow>
      \<not> all_before y x zs" for x y :: table and zs
  proof (induction zs)
    case Nil
    then show ?case by simp
  next
    case (Cons z zs)
    show ?case
    proof (cases "z = y")
      case True
      with Cons.prems show ?thesis by (auto simp: all_before_def)
    next
      case ny: False
      show ?thesis
      proof (cases "z = x")
        case True
        with Cons.prems ny show ?thesis by (auto simp: all_before_def)
      next
        case False
        with ny Cons show ?thesis by (auto simp: all_before_def)
      qed
    qed
  qed
  from this [OF b] m show ?thesis by simp
qed


subsection \<open>The trigger around the songs\<close>

lemma pg_exec_clock: "clock (snd (pg_exec e d q)) = Suc (clock d)"
  by (simp add: pg_exec_def split: prod.splits)

lemma pg_exec_insert_trigger:
  "hit_trigger (snd (pg_exec e d (Insert t ps))) = hit_trigger d"
  by (simp add: pg_exec_def split: prod.splits option.splits)

lemma song_step_effect:
  assumes "album_ids s \<noteq> []"
  shows "returned (song_step e i s)
    \<and> clock (db (final (song_step e i s))) = Suc (clock (db s))
    \<and> hit_trigger (db (final (song_step e i s))) = hit_trigger (db s)
    \<and> album_ids (final (song_step e i s)) = album_ids s
    \<and> length (sent (song_step e i s)) = 1
    \<and> list_all song_insert (sent (song_step e i s))"
proof -
  obtain ps where st: "song_step e i s = attempt e (Insert Song ps) (\<lambda>s'. s') (drew 4 3 s)"
    using assms by (simp add: song_step_def Let_def)
  obtain r d where x: "pg_exec e (db s) (Insert Song ps) = (r, d)"
    by (cases "pg_exec e (db s) (Insert Song ps)")
  have c: "clock d = Suc (clock (db s))" and h: "hit_trigger d = hit_trigger (db s)"
    using pg_exec_clock [of e "db s" "Insert Song ps"]
      pg_exec_insert_trigger [of e "db s" Song ps] x by simp_all
  have f: "final (song_step e i s) = (drew 4 3 s)\<lparr>db := d\<rparr>"
    using x by (cases r) (simp_all add: st attempt_def seed_execute_query_def db_drew)
  show ?thesis
    using c h by (simp add: f) (simp add: st returned_attempt sent_attempt drew_def)
qed

lemma song_loop_effect:
  assumes "xs = [] \<or> album_ids s \<noteq> []"
  shows "returned (for_each (song_step e) xs s)
    \<and> clock (db (final (for_each (song_step e) xs s))) = clock (db s) + length xs
    \<and> hit_trigger (db (final (for_each (song_step e) xs s))) = hit_trigger (db s)
    \<and> length (sent (for_each (song_step e) xs s)) = length xs
    \<and> list_all song_insert (sent (for_each (song_step e) xs s))"
  using assms
proof (induction xs arbitrary: s)
  case Nil
  show ?case by simp
next
  case (Cons x xs)
  then have al: "album_ids s \<noteq> []" by simp
  note st = song_step_effect [OF al, of e x]
  from st have a: "xs = [] \<or> album_ids (final (song_step e x s)) \<noteq> []" using al by simp
  from Cons.IH [OF a] st show ?case
    by (simp add: returned_seq final_seq sent_seq)
qed

lemma attempt_alter:
  assumes "q = DisableTrigger \<or> q = EnableTrigger"
  shows "clock (db (final (attempt e q (\<lambda>s'. s') s))) = Suc (clock (db s))
    \<and> album_ids (final (attempt e q (\<lambda>s'. s') s)) = album_ids s
    \<and> hit_trigger (db (final (attempt e q (\<lambda>s'. s') s)))
        = (if raises e (clock (db s)) then hit_trigger (db s) else q = EnableTrigger)"
  using assms
  by (auto simp: attempt_def seed_execute_query_def pg_exec_def split: prod.splits reply.splits)

lemma generate_songs_effect:
  "take 1 (sent (generate_songs e n s)) = [DisableTrigger]
   \<and> returned (generate_songs e n s) = (n = 0 \<or> album_ids s \<noteq> [])
   \<and> (returned (generate_songs e n s) \<longrightarrow>
        length (sent (generate_songs e n s)) = n + 2
        \<and> list_all song_insert (take n (drop 1 (sent (generate_songs e n s))))
        \<and> drop (n + 1) (sent (generate_songs e n s)) = [EnableTrigger]
        \<and> hit_trigger (db (final (generate_songs e n s)))
            = (if \<not> raises e (clock (db s) + n + 1) then True
               else if raises e (clock (db s)) then hit_trigger (db s) else False))"
proof -
  define s1 where "s1 = final (attempt e DisableTrigger (\<lambda>s'. s') s)"
  define loop where "loop = for_each (song_step e) [0..<n] s1"
  have g: "generate_songs e n s
      = seq (attempt e DisableTrigger (\<lambda>s'. s') s)
          (\<lambda>s1. seq (for_each (song_step e) [0..<n] s1) (attempt e EnableTrigger (\<lambda>s'. s')))"
    by (simp add: generate_songs_def)
  have d: "clock (db s1) = Suc (clock (db s))" "album_ids s1 = album_ids s"
    "hit_trigger (db s1) = (if raises e (clock (db s)) then hit_trigger (db s) else False)"
    using attempt_alter [of DisableTrigger e s] by (simp_all add: s1_def)
  have first: "take 1 (sent (generate_songs e n s)) = [DisableTrigger]"
    by (simp add: g sent_seq sent_attempt)
  have ret: "returned (generate_songs e n s) = returned loop"
    by (simp add: g returned_seq returned_attempt loop_def s1_def)
  show ?thesis
  proof (cases "n = 0 \<or> album_ids s \<noteq> []")
    case False
    then have "[0..<n] = 0 # [Suc 0..<n]" by (simp add: upt_conv_Cons)
    then have "\<not> returned loop"
      using False d by (simp add: loop_def returned_seq song_step_def Let_def)
    with False first show ?thesis by (simp add: ret)
  next
    case True
    then have a: "[0..<n] = [] \<or> album_ids s1 \<noteq> []" by (auto simp: d)
    note l = song_loop_effect [OF a, of e, folded loop_def]
    from l have rl: "returned loop" by simp
    have tr: "sent (generate_songs e n s) = DisableTrigger # sent loop @ [EnableTrigger]"
      using rl by (simp add: g sent_seq sent_attempt returned_attempt loop_def s1_def)
    have fin: "final (generate_songs e n s)
        = final (attempt e EnableTrigger (\<lambda>s'. s') (final loop))"
      using rl by (simp add: g final_seq returned_attempt loop_def s1_def)
    have len: "length (sent loop) = n" using l by simp
    have ck: "clock (db (final loop)) = clock (db s) + n + 1" using l d by simp
    have ht: "hit_trigger (db (final loop))
        = (if raises e (clock (db s)) then hit_trigger (db s) else False)"
      using l d by simp
    have en: "hit_trigger (db (final (attempt e EnableTrigger (\<lambda>s'. s') (final loop))))
        = (if raises e (clock (db s) + n + 1)
           then (if raises e (clock (db s)) then hit_trigger (db s) else False) else True)"
      using attempt_alter [of EnableTrigger e "final loop"] by (simp add: ck ht)
    have mid: "list_all song_insert (take n (drop 1 (sent (generate_songs e n s))))"
      using l len by (simp add: tr)
    have lst: "drop (n + 1) (sent (generate_songs e n s)) = [EnableTrigger]"
      using len by (simp add: tr)
    have ln: "length (sent (generate_songs e n s)) = n + 2" using len by (simp add: tr)
    have rt: "returned (generate_songs e n s)" using rl by (simp add: ret)
    have hf: "hit_trigger (db (final (generate_songs e n s)))
            = (if \<not> raises e (clock (db s) + n + 1) then True
               else if raises e (clock (db s)) then hit_trigger (db s) else False)"
      by (simp add: fin en)
    from first rt True mid lst ln hf show ?thesis by simp
  qed
qed

text \<open>
  C9, as the code has it. A run of \<open>generate_songs\<close> sends \<open>DISABLE TRIGGER\<close> first. It
  returns exactly when it is asked for no song or holds an album; then it has sent the
  \<open>DISABLE\<close>, the song INSERTs and nothing else, and as its last statement the \<open>ENABLE
  TRIGGER\<close>. An exception of either ALTER statement is swallowed: when the \<open>ENABLE\<close> does
  not raise the trigger is enabled again on return, and when it raises the trigger is left
  as the \<open>DISABLE\<close> left it.
\<close>

theorem generate_songs_brackets_the_inserts:
  "take 1 (sent (generate_songs e n s)) = [DisableTrigger]
   \<and> returned (generate_songs e n s) = (n = 0 \<or> album_ids s \<noteq> [])
   \<and> (returned (generate_songs e n s) \<longrightarrow>
        length (sent (generate_songs e n s)) = n + 2
        \<and> list_all song_insert (take n (drop 1 (sent (generate_songs e n s))))
        \<and> drop (n + 1) (sent (generate_songs e n s)) = [EnableTrigger]
        \<and> hit_trigger (db (final (generate_songs e n s)))
            = (if \<not> raises e (clock (db s) + n + 1) then True
               else if raises e (clock (db s)) then hit_trigger (db s) else False))"
  by (rule generate_songs_effect)

theorem generate_songs_brackets_the_inserts_witness:
  "returned (generate_songs calm 2 two_albums)
   \<and> length (sent (generate_songs calm 2 two_albums)) = 4
   \<and> take 1 (sent (generate_songs calm 2 two_albums)) = [DisableTrigger]
   \<and> list_all song_insert (take 2 (drop 1 (sent (generate_songs calm 2 two_albums))))
   \<and> drop 3 (sent (generate_songs calm 2 two_albums)) = [EnableTrigger]
   \<and> hit_trigger (db (final (generate_songs calm 2 two_albums)))"
proof -
  have a: "album_ids two_albums \<noteq> []" by (simp add: two_albums_def)
  have r: "\<not> raises calm k" for k by (simp add: calm_def)
  show ?thesis
    using generate_songs_brackets_the_inserts [of calm 2 two_albums] a r
    by (simp del: One_nat_def)
qed

text \<open>
  The claim as stated fails in its last part. When the connection is lost during the
  loop, the \<open>ENABLE TRIGGER\<close> raises like every statement after the loss, the exception is
  passed over, and \<open>generate_songs\<close> returns with the trigger still disabled.
\<close>

theorem trigger_left_disabled:
  "hit_trigger (db two_albums)
   \<and> returned (generate_songs lossy 2 two_albums)
   \<and> drop 3 (sent (generate_songs lossy 2 two_albums)) = [EnableTrigger]
   \<and> \<not> hit_trigger (db (final (generate_songs lossy 2 two_albums)))"
proof -
  have a: "album_ids two_albums \<noteq> []" "hit_trigger (db two_albums)"
    "clock (db two_albums) = 0"
    by (simp_all add: two_albums_def DataGenerator_def empty_pg_def)
  have r: "raises lossy k = (2 \<le> k)" for k by (simp add: lossy_def)
  show ?thesis
    using generate_songs_effect [of lossy 2 two_albums] a r
    by (simp del: One_nat_def)
qed


subsection \<open>Engineers and managers\<close>

lemma attempted_append: "attempted t (xs @ ys) = attempted t xs @ attempted t ys"
  by (simp add: attempted_def)

lemma for_each_attempted:
  assumes "\<And>x s. I s \<Longrightarrow>
      returned (body x s) \<and> I (final (body x s)) \<and> F (final (body x s)) = F s
      \<and> attempted t (sent (body x s)) = [g (F s) x]"
    and "I s"
  shows "attempted t (sent (for_each body xs s)) = map (g (F s)) xs
         \<and> F (final (for_each body xs s)) = F s \<and> I (final (for_each body xs s))
         \<and> returned (for_each body xs s)"
  using assms(2)
proof (induction xs arbitrary: s)
  case Nil
  then show ?case by (simp add: attempted_def)
next
  case (Cons x xs)
  note st = assms(1) [OF Cons.prems, of x]
  from st have i: "I (final (body x s))" by simp
  from Cons.IH [OF i] st show ?case
    by (simp add: sent_seq final_seq returned_seq attempted_append)
qed

lemma attempt_keeps_staff:
  assumes "\<And>s'. staff_ids (k s') = staff_ids s' \<and> studio_ids (k s') = studio_ids s'"
  shows "staff_ids (final (attempt e (Insert t ps) k s)) = staff_ids s
         \<and> studio_ids (final (attempt e (Insert t ps) k s)) = studio_ids s"
proof -
  obtain r s' where x: "seed_execute_query e (Insert t ps) s = (r, s')"
    by (cases "seed_execute_query e (Insert t ps) s")
  have "staff_ids s' = staff_ids s \<and> studio_ids s' = studio_ids s"
    using execute_keeps [OF x] by simp
  then show ?thesis
    using x assms by (cases r) (simp_all add: attempt_def)
qed

lemma engineer_step_attempts:
  assumes "studio_ids s \<noteq> []"
  shows "returned (engineer_step e i s)
    \<and> studio_ids (final (engineer_step e i s)) \<noteq> []
    \<and> staff_ids (final (engineer_step e i s)) = staff_ids s
    \<and> attempted Engineer (sent (engineer_step e i s)) = [PInt (staff_ids s ! i)]"
proof -
  have k: "staff_ids (final (attempt e (Insert Engineer ps) k (drew r f s))) = staff_ids s
      \<and> studio_ids (final (attempt e (Insert Engineer ps) k (drew r f s))) = studio_ids s"
    if "\<And>s'. staff_ids (k s') = staff_ids s' \<and> studio_ids (k s') = studio_ids s'"
    for ps k r f
    using attempt_keeps_staff [of k e Engineer ps "drew r f s"] that
    by (simp add: drew_def)
  show ?thesis
    using assms
    by (simp add: engineer_step_def Let_def returned_attempt sent_attempt attempted_def k)
qed

lemma manager_step_attempts:
  "returned (manager_step e i s)
    \<and> staff_ids (final (manager_step e i s)) = staff_ids s
    \<and> attempted Manager (sent (manager_step e i s)) = [PInt (staff_ids s ! i)]"
proof -
  have k: "staff_ids (final (attempt e (Insert Manager ps) k (drew r f s))) = staff_ids s"
    if "\<And>s'. staff_ids (k s') = staff_ids s' \<and> studio_ids (k s') = studio_ids s'"
    for ps k r f
    using attempt_keeps_staff [of k e Manager ps "drew r f s"] that
    by (simp add: drew_def)
  show ?thesis
    by (simp add: manager_step_def Let_def returned_attempt sent_attempt attempted_def k)
qed

lemma map_nth_upt:
  "m \<le> length xs \<Longrightarrow> map (\<lambda>i. f (xs ! i)) [n..<m] = map f (take (m - n) (drop n xs))"
  by (rule nth_equalityI) auto

lemma map_nth_take:
  "map (\<lambda>i. f (xs ! i)) [0..<min n (length xs)] = map f (take n xs)"
  by (rule nth_equalityI) auto

text \<open>
  The staff that \<open>generate_engineers(count)\<close> tries as engineers are the first \<open>count\<close> of
  the pool; it leaves the pool as it is.
\<close>

lemma generate_engineers_attempts:
  assumes "studio_ids s \<noteq> []"
  shows "attempted Engineer (sent (generate_engineers e n s)) = map PInt (take n (staff_ids s))"
    and "staff_ids (final (generate_engineers e n s)) = staff_ids s"
proof -
  note l = for_each_attempted [of "\<lambda>s. studio_ids s \<noteq> []" "engineer_step e" staff_ids
      Engineer "\<lambda>st i. PInt (st ! i)" s "[0..<min n (length (staff_ids s))]",
      OF engineer_step_attempts assms]
  have "map (\<lambda>i. PInt (staff_ids s ! i)) [0..<min n (length (staff_ids s))]
      = map PInt (take n (staff_ids s))"
    by (rule map_nth_take)
  then show "attempted Engineer (sent (generate_engineers e n s))
      = map PInt (take n (staff_ids s))"
    using l by (simp add: generate_engineers_def)
  show "staff_ids (final (generate_engineers e n s)) = staff_ids s"
    using l by (simp add: generate_engineers_def)
qed

text \<open>
  The staff that \<open>generate_managers(count)\<close> tries as managers are the ten of the pool
  from position \<open>count\<close> on: the offset is the number of managers asked for.
\<close>

lemma generate_managers_attempts:
  "attempted Manager (sent (generate_managers e n s))
     = map PInt (take 10 (drop n (staff_ids s)))"
proof -
  note l = for_each_attempted [of "\<lambda>s. True" "manager_step e" staff_ids
      Manager "\<lambda>st i. PInt (st ! i)" s "[n..<min (n + 10) (length (staff_ids s))]"]
  have "map (\<lambda>i. PInt (staff_ids s ! i)) [n..<min (n + 10) (length (staff_ids s))]
      = map PInt (take (min (n + 10) (length (staff_ids s)) - n) (drop n (staff_ids s)))"
    by (simp add: map_nth_upt [of "min (n + 10) (length (staff_ids s))" "staff_ids s" PInt n])
  also have "\<dots> = map PInt (take 10 (drop n (staff_ids s)))"
    by (cases "n + 10 \<le> length (staff_ids s)") (simp_all add: min_def)
  finally show ?thesis
    using l manager_step_attempts by (simp add: generate_managers_def)
qed

text \<open>
  C3. The staff attempted as engineers and the staff attempted as managers are to be
  disjoint. Evaluated as \<open>generate_all\<close> calls them, \<open>generate_engineers(15)\<close> and then
  \<open>generate_managers(10)\<close> on a pool of the forty staff keys 1 to 40: the engineers attempted
  are the keys 1 to 15, the managers attempted are the keys 11 to 20, and the keys 11 to 15
  are attempted as both.
\<close>

theorem engineers_and_managers_overlap:
  "attempted Engineer (sent (generate_engineers calm 15 staffed))
     = map PInt [1, 2, 3, 4, 5, 6, 7, 8, 9, 10, 11, 12, 13, 14, 15]
   \<and> attempted Manager
       (sent (generate_managers calm 10 (final (generate_engineers calm 15 staffed))))
     = map PInt [11, 12, 13, 14, 15, 16, 17, 18, 19, 20]
   \<and> set (attempted Engineer (sent (generate_engineers calm 15 staffed)))
     \<inter> set (attempted Manager
         (sent (generate_managers calm 10 (final (generate_engineers calm 15 staffed)))))
     = PInt ` {11, 12, 13, 14, 15}"
proof -
  have st: "studio_ids staffed \<noteq> []" by (simp add: staffed_def)
  have pool: "staff_ids staffed = map int [1..<41]" by (simp add: staffed_def)
  have t15: "take 15 (map int [1..<41]) = [1, 2, 3, 4, 5, 6, 7, 8, 9, 10, 11, 12, 13, 14, 15]"
    by code_simp
  have t10: "take 10 (drop 10 (map int [1..<41])) = [11, 12, 13, 14, 15, 16, 17, 18, 19, 20]"
    by code_simp
  have en: "attempted Engineer (sent (generate_engineers calm 15 staffed))
     = map PInt [1, 2, 3, 4, 5, 6, 7, 8, 9, 10, 11, 12, 13, 14, 15]"
    by (simp only: generate_engineers_attempts(1) [OF st] pool t15)
  have ma: "attempted Manager
       (sent (generate_managers calm 10 (final (generate_engineers calm 15 staffed))))
     = map PInt [11, 12, 13, 14, 15, 16, 17, 18, 19, 20]"
    by (simp only: generate_managers_attempts generate_engineers_attempts(2) [OF st] pool t10)
  show ?thesis
    unfolding en ma by auto
qed


subsection \<open>What the run owes to the database's \<open>RANDOM()\<close>\<close>

lemma same_refl: "same_but_songs a a"
  by (simp add: same_but_songs_def)

lemma same_seq:
  assumes "same_but_songs a b" and "\<And>s. same_but_songs (f s) (g s)"
  shows "same_but_songs (seq a f) (seq b g)"
  using assms(1) assms(2) [of "final b"]
  by (simp add: same_but_songs_def sent_seq final_seq returned_seq)

lemma same_for_each:
  assumes "\<And>x s. same_but_songs (body x s) (body' x s)"
  shows "same_but_songs (for_each body xs s) (for_each body' xs s)"
proof (induction xs arbitrary: s)
  case Nil
  show ?case by (simp add: same_refl)
next
  case (Cons x xs)
  show ?case
    using same_seq [of "body x s" "body' x s" "for_each body xs" "for_each body' xs"]
      assms Cons.IH
    by simp
qed

lemma same_chain:
  assumes "list_all2 (\<lambda>f g. \<forall>s. same_but_songs (f s) (g s)) fs gs"
  shows "same_but_songs (chain fs s) (chain gs s)"
  using assms
proof (induction fs gs arbitrary: s rule: list_all2_induct)
  case Nil
  show ?case by (simp add: same_refl)
next
  case (Cons f fs g gs)
  show ?case
    using same_seq [of "f s" "g s" "chain fs" "chain gs"] Cons.hyps(1) Cons.IH
    by simp
qed

text \<open>Only the SELECT of a random song reads \<open>RANDOM()\<close>.\<close>

lemma pg_exec_db_random:
  "q \<noteq> SelectRandomSong \<Longrightarrow> pg_exec (e\<lparr>db_random := r\<rparr>) d q = pg_exec e d q"
  by (cases q) (simp_all add: pg_exec_def)

lemma execute_db_random:
  "q \<noteq> SelectRandomSong \<Longrightarrow>
   seed_execute_query (e\<lparr>db_random := r\<rparr>) q s = seed_execute_query e q s"
  by (simp add: seed_execute_query_def pg_exec_db_random)

lemma insert_returning_db_random:
  "insert_returning (e\<lparr>db_random := r\<rparr>) t ps k = insert_returning e t ps k"
  by (rule ext) (simp add: insert_returning_def execute_db_random)

lemma attempt_db_random:
  "q \<noteq> SelectRandomSong \<Longrightarrow> attempt (e\<lparr>db_random := r\<rparr>) q k = attempt e q k"
  by (rule ext) (simp add: attempt_def execute_db_random)

lemma must_db_random:
  "q \<noteq> SelectRandomSong \<Longrightarrow> must (e\<lparr>db_random := r\<rparr>) q = must e q"
  by (rule ext) (simp add: must_def execute_db_random)

lemma date_between_db_random: "date_between (e\<lparr>db_random := r\<rparr>) y n = date_between e y n"
  by (simp add: date_between_def)

lemmas db_random_simps =
  insert_returning_db_random attempt_db_random must_db_random date_between_db_random Let_def

lemma clean_database_db_random:
  "clean_database (e\<lparr>db_random := r\<rparr>) = clean_database e"
  by (rule ext) (simp add: clean_database_def db_random_simps)

lemma generate_artists_db_random:
  "generate_artists (e\<lparr>db_random := r\<rparr>) n = generate_artists e n"
proof -
  have "artist_step (e\<lparr>db_random := r\<rparr>) = artist_step e"
    by (intro ext) (simp add: artist_step_def db_random_simps)
  then show ?thesis by (simp add: generate_artists_def)
qed

lemma generate_producers_db_random:
  "generate_producers (e\<lparr>db_random := r\<rparr>) n = generate_producers e n"
proof -
  have "producer_step (e\<lparr>db_random := r\<rparr>) = producer_step e"
    by (intro ext) (simp add: producer_step_def db_random_simps)
  then show ?thesis by (simp add: generate_producers_def)
qed

lemma generate_studios_db_random:
  "generate_studios (e\<lparr>db_random := r\<rparr>) n = generate_studios e n"
proof -
  have "studio_step (e\<lparr>db_random := r\<rparr>) = studio_step e"
    by (intro ext) (simp add: studio_step_def db_random_simps)
  then show ?thesis by (simp add: generate_studios_def)
qed

lemma generate_albums_db_random:
  "generate_albums (e\<lparr>db_random := r\<rparr>) n = generate_albums e n"
proof -
  have "album_step (e\<lparr>db_random := r\<rparr>) = album_step e"
    by (intro ext) (simp add: album_step_def db_random_simps)
  then show ?thesis by (simp add: generate_albums_def)
qed

lemma generate_songs_db_random:
  "generate_songs (e\<lparr>db_random := r\<rparr>) n = generate_songs e n"
proof -
  have "song_step (e\<lparr>db_random := r\<rparr>) = song_step e"
    by (intro ext) (simp add: song_step_def db_random_simps)
  then show ?thesis by (intro ext) (simp add: generate_songs_def db_random_simps)
qed

lemma generate_recording_sessions_db_random:
  "generate_recording_sessions (e\<lparr>db_random := r\<rparr>) n = generate_recording_sessions e n"
proof -
  have "session_step (e\<lparr>db_random := r\<rparr>) = session_step e"
    by (intro ext) (simp add: session_step_def db_random_simps)
  then show ?thesis by (simp add: generate_recording_sessions_def)
qed

lemma generate_staff_db_random:
  "generate_staff (e\<lparr>db_random := r\<rparr>) n = generate_staff e n"
proof -
  have "staff_step (e\<lparr>db_random := r\<rparr>) = staff_step e"
    by (intro ext) (simp add: staff_step_def db_random_simps)
  then show ?thesis by (simp add: generate_staff_def)
qed

lemma generate_engineers_db_random:
  "generate_engineers (e\<lparr>db_random := r\<rparr>) n = generate_engineers e n"
proof -
  have "engineer_step (e\<lparr>db_random := r\<rparr>) = engineer_step e"
    by (intro ext) (simp add: engineer_step_def db_random_simps)
  then show ?thesis by (intro ext) (simp add: generate_engineers_def)
qed

lemma generate_managers_db_random:
  "generate_managers (e\<lparr>db_random := r\<rparr>) n = generate_managers e n"
proof -
  have "manager_step (e\<lparr>db_random := r\<rparr>) = manager_step e"
    by (intro ext) (simp add: manager_step_def db_random_simps)
  then show ?thesis by (intro ext) (simp add: generate_managers_def)
qed

lemma generate_distributions_db_random:
  "generate_distributions (e\<lparr>db_random := r\<rparr>) n = generate_distributions e n"
proof -
  have "distribution_step (e\<lparr>db_random := r\<rparr>) = distribution_step e"
    by (intro ext) (simp add: distribution_step_def db_random_simps)
  then show ?thesis by (simp add: generate_distributions_def)
qed

lemma generate_contracts_db_random:
  "generate_contracts (e\<lparr>db_random := r\<rparr>) n = generate_contracts e n"
proof -
  have "contract_step (e\<lparr>db_random := r\<rparr>) = contract_step e"
    by (intro ext) (simp add: contract_step_def db_random_simps)
  then show ?thesis by (intro ext) (simp add: generate_contracts_def)
qed

lemma generate_artist_albums_db_random:
  "generate_artist_albums (e\<lparr>db_random := r\<rparr>) n = generate_artist_albums e n"
proof -
  have "artist_album_step (e\<lparr>db_random := r\<rparr>) = artist_album_step e"
    by (intro ext) (simp add: artist_album_step_def db_random_simps)
  then show ?thesis by (simp add: generate_artist_albums_def)
qed

lemma select_random_song:
  "seed_execute_query e SelectRandomSong s =
     (if raises e (clock (db s)) then Failed
      else if song_keys (db s) = [] then Rows []
      else Rows [[fst (song_keys (db s)
                        ! (db_random e (clock (db s)) mod length (song_keys (db s)))),
                  snd (song_keys (db s)
                        ! (db_random e (clock (db s)) mod length (song_keys (db s))))]],
      tick s)"
  by (simp add: seed_execute_query_def pg_exec_def tick_def split: prod.splits)

lemma attempt_song_distribution:
  "sent (attempt e (Insert SongDistribution ps) (\<lambda>s'. s') s) = [Insert SongDistribution ps]
   \<and> final (attempt e (Insert SongDistribution ps) (\<lambda>s'. s') s) = tick s
   \<and> returned (attempt e (Insert SongDistribution ps) (\<lambda>s'. s') s)"
  by (simp add: attempt_def seed_execute_query_def pg_exec_def tick_def returns_id_def
      split: prod.splits reply.splits)

text \<open>
  One step of \<open>generate_song_distributions\<close>: the SELECT alone when it raises, finds no
  song or there is no distribution to choose; else the SELECT and the INSERT for the song
  the database picked.
\<close>

lemma song_distribution_step_eq:
  "sent (song_distribution_step e i s) =
     (if raises e (clock (db s)) \<or> song_keys (db s) = [] \<or> distribution_ids s = []
      then [SelectRandomSong]
      else [SelectRandomSong,
            Insert SongDistribution
              [PInt (snd (song_keys (db s)
                       ! (db_random e (clock (db s)) mod length (song_keys (db s))))),
               PInt (fst (song_keys (db s)
                       ! (db_random e (clock (db s)) mod length (song_keys (db s))))),
               PInt (pick (distribution_ids s) (rand e (rand_calls s))),
               PDate (date_between e 2 (faker e (fake_calls s))),
               PStr (pick agreement_statuses (rand e (rand_calls s + 1)))]])
   \<and> final (song_distribution_step e i s) =
     (if raises e (clock (db s)) \<or> song_keys (db s) = [] \<or> distribution_ids s = []
      then tick s else tick (drew 2 1 (tick s)))
   \<and> returned (song_distribution_step e i s)"
  by (simp add: song_distribution_step_def select_random_song Let_def sent_seq final_seq
      returned_seq attempt_song_distribution tick_def drew_def)

lemma song_distribution_step_db_random:
  "same_but_songs (song_distribution_step (e\<lparr>db_random := r\<rparr>) i s)
     (song_distribution_step e i s)"
  by (simp add: same_but_songs_def song_distribution_step_eq date_between_db_random)

lemma generate_song_distributions_db_random:
  "same_but_songs (generate_song_distributions (e\<lparr>db_random := r\<rparr>) n s)
     (generate_song_distributions e n s)"
  unfolding generate_song_distributions_def
  by (rule same_for_each) (rule song_distribution_step_db_random)

lemma generate_all_db_random:
  "same_but_songs (generate_all (e\<lparr>db_random := r\<rparr>) d) (generate_all e d)"
proof (cases "connects e")
  case False
  then show ?thesis by (simp add: generate_all_def same_refl)
next
  case True
  have "same_but_songs
     (chain [clean_database e, generate_artists e 60, generate_producers e 50,
             generate_studios e 20, generate_albums e 100, generate_songs e 500,
             generate_recording_sessions e 150, generate_staff e 40,
             generate_engineers e 15, generate_managers e 10, generate_distributions e 10,
             generate_song_distributions (e\<lparr>db_random := r\<rparr>) 300,
             generate_contracts e 50, generate_artist_albums e 150] (DataGenerator d))
     (chain [clean_database e, generate_artists e 60, generate_producers e 50,
             generate_studios e 20, generate_albums e 100, generate_songs e 500,
             generate_recording_sessions e 150, generate_staff e 40,
             generate_engineers e 15, generate_managers e 10, generate_distributions e 10,
             generate_song_distributions e 300,
             generate_contracts e 50, generate_artist_albums e 150] (DataGenerator d))"
    by (rule same_chain) (simp add: same_refl generate_song_distributions_db_random)
  then show ?thesis
    using True
    by (simp add: generate_all_def clean_database_db_random generate_artists_db_random
        generate_producers_db_random generate_studios_db_random generate_albums_db_random
        generate_songs_db_random generate_recording_sessions_db_random
        generate_staff_db_random generate_engineers_db_random generate_managers_db_random
        generate_distributions_db_random generate_contracts_db_random
        generate_artist_albums_db_random)
qed


subsection \<open>Two runs that differ\<close>

lemma pg_exec_distinct:
  "distinct (song_keys d) \<Longrightarrow> distinct (song_keys (snd (pg_exec e d q)))"
  by (cases q) (auto simp: pg_exec_def split: option.splits prod.splits)

lemma for_each_invariant:
  assumes "\<And>x s. P s \<Longrightarrow> P (final (body x s))" and "P s"
  shows "P (final (for_each body xs s))"
  using assms(2)
proof (induction xs arbitrary: s)
  case Nil
  then show ?case by simp
next
  case (Cons x xs)
  from assms(1) [OF Cons.prems, of x] have "P (final (body x s))" .
  from Cons.IH [OF this] Cons.prems assms(1) [OF Cons.prems, of x] show ?case
    by (simp add: final_seq)
qed

lemma clean_database_distinct:
  assumes "distinct (song_keys (db s))"
  shows "distinct (song_keys (db (final (clean_database e s))))"
proof -
  have step: "distinct (song_keys (db s')) \<Longrightarrow>
      distinct (song_keys (db (final (must e (Truncate t) s'))))" for t s'
    using pg_exec_distinct [of "db s'" e "Truncate t"]
    by (auto simp: must_def seed_execute_query_def split: prod.splits reply.splits)
  show ?thesis
    unfolding clean_database_def final_swallow
    by (rule for_each_invariant [of "\<lambda>s. distinct (song_keys (db s))"]) (simp_all add: step assms)
qed

text \<open>A song step whose INSERT runs leaves its key among the song keys.\<close>

lemma song_step_adds:
  assumes "\<And>k. \<not> raises e k" and "album_ids s \<noteq> []"
  shows "(pick (album_ids s) (rand e (rand_calls s)), randint 1 20 (rand e (rand_calls s + 1)))
           \<in> set (song_keys (db (final (song_step e i s))))
         \<and> rand_calls (final (song_step e i s)) = rand_calls s + 4
         \<and> album_ids (final (song_step e i s)) = album_ids s"
  using assms
  by (simp add: song_step_def Let_def attempt_def calm_execute drew_def returns_id_def)

lemma mod_twenty_four_apart: "(r + 1) mod 20 \<noteq> (r + 5) mod (20::nat)"
proof -
  define m where "m = (r + 1) mod 20"
  have lt: "m < 20" by (simp add: m_def)
  have "(m + 4) mod 20 = (r + 1 + 4) mod 20"
    unfolding m_def by (rule mod_add_left_eq)
  moreover have "r + 1 + 4 = r + 5" by simp
  ultimately have e: "(r + 5) mod 20 = (m + 4) mod 20" by (simp only:)
  have "(m + 4) mod 20 \<noteq> m"
  proof (cases "m + 4 < 20")
    case True
    then show ?thesis by simp
  next
    case False
    then have "(m + 4) mod 20 = (m + 4 - 20) mod 20" by (simp add: le_mod_geq)
    also have "\<dots> = m + 4 - 20" using lt by simp
    finally show ?thesis using False by simp
  qed
  then have "m \<noteq> (m + 4) mod 20" by (rule not_sym)
  then show ?thesis unfolding e unfolding m_def .
qed

lemma randint_four_apart: "randint 1 20 (r + 1) \<noteq> randint 1 20 (r + 4 + 1)"
proof -
  have "r + 4 + 1 = r + 5" by simp
  with mod_twenty_four_apart [of r] show ?thesis by (simp only: randint_def) simp
qed

lemma generate_songs_two_keys:
  assumes calm: "\<And>k. \<not> raises e k" and id: "rand e = (\<lambda>k. k)"
    and al: "album_ids s \<noteq> []" and n: "2 \<le> n"
  shows "\<exists>k0 k1. k0 \<noteq> k1 \<and> k0 \<in> set (song_keys (db (final (generate_songs e n s))))
           \<and> k1 \<in> set (song_keys (db (final (generate_songs e n s))))"
proof -
  define s1 where "s1 = final (attempt e DisableTrigger (\<lambda>s'. s') s)"
  define a where "a = final (song_step e 0 s1)"
  define b where "b = final (song_step e 1 a)"
  define c where "c = final (for_each (song_step e) [2..<n] b)"
  define k0 where "k0 = (pick (album_ids s1) (rand_calls s1), randint 1 20 (rand_calls s1 + 1))"
  define k1 where "k1 = (pick (album_ids a) (rand_calls a), randint 1 20 (rand_calls a + 1))"
  have al1: "album_ids s1 \<noteq> []"
    using attempt_alter [of DisableTrigger e s] al by (simp add: s1_def)
  note st0 = song_step_adds [OF calm al1, of 0, unfolded id, folded a_def k0_def]
  then have ala: "album_ids a \<noteq> []" using al1 by simp
  note st1 = song_step_adds [OF calm ala, of 1, unfolded id, folded b_def k1_def]
  have up: "[0..<n] = 0 # 1 # [2..<n]"
    using n by (simp add: upt_conv_Cons numeral_2_eq_2)
  have r0: "returned (song_step e 0 s1)" using song_step_effect [OF al1] by simp
  have r1: "returned (song_step e 1 a)" using song_step_effect [OF ala] by simp
  have rc: "returned (for_each (song_step e) [2..<n] b)"
    using song_loop_effect [of "[2..<n]" b e] st1 ala by simp
  have loop: "final (for_each (song_step e) [0..<n] s1) = c"
    using r0 r1 by (simp add: up final_seq a_def b_def c_def)
  have rl: "returned (for_each (song_step e) [0..<n] s1)"
    using r0 r1 rc by (simp add: up returned_seq a_def b_def)
  have fin: "final (generate_songs e n s) = final (attempt e EnableTrigger (\<lambda>s'. s') c)"
    using rl loop by (simp add: generate_songs_def final_seq returned_attempt s1_def)
  have ab: "extends a b" unfolding b_def by (rule extends_song_step)
  have bc: "extends b c" unfolding c_def by (rule for_each_extends) (rule extends_song_step)
  have cf: "extends c (final (generate_songs e n s))"
    unfolding fin by (rule extends_attempt) (simp_all add: extends_refl)
  have "k0 \<in> set (song_keys (db a))" using st0 by simp
  then have m0: "k0 \<in> set (song_keys (db (final (generate_songs e n s))))"
    using ab bc cf by (auto simp: extends_def)
  have "k1 \<in> set (song_keys (db b))" using st1 by simp
  then have m1: "k1 \<in> set (song_keys (db (final (generate_songs e n s))))"
    using bc cf by (auto simp: extends_def)
  have "rand_calls a = rand_calls s1 + 4" using st0 by simp
  then have "snd k0 \<noteq> snd k1"
    using randint_four_apart [of "rand_calls s1"] by (simp add: k0_def k1_def)
  then have "k0 \<noteq> k1" by auto
  with m0 m1 show ?thesis by blast
qed

text \<open>
  A run in which the storage raises on nothing comes to the song distributions with at
  least two songs, and the first song distribution is attached to the song that
  \<open>RANDOM()\<close> picks among them.
\<close>

lemma calm_run_first_song_distribution:
  assumes calm: "\<And>k. \<not> raises e k" and con: "connects e" and id: "rand e = (\<lambda>k. k)"
    and dis: "distinct (song_keys d)"
  shows "\<exists>P keys c rest. distinct keys \<and> 2 \<le> length keys
     \<and> (\<forall>r. \<exists>R. sent (generate_all (e\<lparr>db_random := r\<rparr>) d)
           = P @ [SelectRandomSong,
                  Insert SongDistribution
                    (PInt (snd (keys ! (r c mod length keys)))
                     # PInt (fst (keys ! (r c mod length keys))) # rest)] @ R)"
proof -
  define s0 where "s0 = DataGenerator d"
  define s1 where "s1 = final (clean_database e s0)"
  define s2 where "s2 = final (generate_artists e 60 s1)"
  define s3 where "s3 = final (generate_producers e 50 s2)"
  define s4 where "s4 = final (generate_studios e 20 s3)"
  define s5 where "s5 = final (generate_albums e 100 s4)"
  define s6 where "s6 = final (generate_songs e 500 s5)"
  define s7 where "s7 = final (generate_recording_sessions e 150 s6)"
  define s8 where "s8 = final (generate_staff e 40 s7)"
  define s9 where "s9 = final (generate_engineers e 15 s8)"
  define s10 where "s10 = final (generate_managers e 10 s9)"
  define s11 where "s11 = final (generate_distributions e 10 s10)"
  define prefix where "prefix = [clean_database e, generate_artists e 60,
     generate_producers e 50, generate_studios e 20, generate_albums e 100,
     generate_songs e 500, generate_recording_sessions e 150, generate_staff e 40,
     generate_engineers e 15, generate_managers e 10, generate_distributions e 10]"
  note folds = s1_def [symmetric] s2_def [symmetric] s3_def [symmetric] s4_def [symmetric]
    s5_def [symmetric] s6_def [symmetric] s7_def [symmetric] s8_def [symmetric]
    s9_def [symmetric] s10_def [symmetric] s11_def [symmetric]
  have d1: "distinct (song_keys (db s1))"
    unfolding s1_def by (rule clean_database_distinct) (simp add: s0_def DataGenerator_def dis)
  have e2: "extends s1 s2" unfolding s2_def by (rule generate_artists_calm(2) [OF calm])
  have a2: "Artist \<in> supplies s2"
    unfolding s2_def by (rule generate_artists_calm(3) [OF calm]) simp
  have e3: "extends s2 s3" unfolding s3_def by (rule generate_producers_calm(2) [OF calm])
  have p3: "Producer \<in> supplies s3"
    unfolding s3_def by (rule generate_producers_calm(3) [OF calm]) simp
  have e4: "extends s3 s4" unfolding s4_def by (rule generate_studios_calm(2) [OF calm])
  have t4: "Studio \<in> supplies s4"
    unfolding s4_def by (rule generate_studios_calm(3) [OF calm]) simp
  have all4: "{Artist, Producer, Studio} \<subseteq> supplies s4"
    using a2 e3 p3 e4 t4 by (auto simp: extends_def)
  then have p4: "Producer \<in> supplies s4" by simp
  have e5: "extends s4 s5" unfolding s5_def by (rule generate_albums_calm(2) [OF calm p4])
  have b5: "Album \<in> supplies s5"
    unfolding s5_def by (rule generate_albums_calm(3) [OF calm p4]) simp
  have e6: "extends s5 s6" unfolding s6_def by (rule extends_generate_songs)
  have all6: "{Artist, Producer, Studio} \<subseteq> supplies s6"
    using all4 e5 e6 by (auto simp: extends_def)
  have e7: "extends s6 s7"
    unfolding s7_def by (rule generate_recording_sessions_calm(2) [OF all6])
  have e8: "extends s7 s8" unfolding s8_def by (rule generate_staff_calm(2) [OF calm])
  have t8: "Studio \<in> supplies s8" using all6 e7 e8 by (auto simp: extends_def)
  have e9: "extends s8 s9" unfolding s9_def by (rule generate_engineers_calm(2) [OF t8])
  have e10: "extends s9 s10" unfolding s10_def by (rule generate_managers_calm(2))
  have e11: "extends s10 s11"
    unfolding s11_def by (rule generate_distributions_calm(2) [OF calm])
  have x11: "Distribution \<in> supplies s11"
    unfolding s11_def by (rule generate_distributions_calm(3) [OF calm]) simp
  have r1: "returned (clean_database e s0)" by (rule returned_clean_database)
  have r2: "returned (generate_artists e 60 s1)" by (rule generate_artists_calm(1) [OF calm])
  have r3: "returned (generate_producers e 50 s2)"
    by (rule generate_producers_calm(1) [OF calm])
  have r4: "returned (generate_studios e 20 s3)" by (rule generate_studios_calm(1) [OF calm])
  have r5: "returned (generate_albums e 100 s4)"
    by (rule generate_albums_calm(1) [OF calm p4])
  have r6: "returned (generate_songs e 500 s5)" by (rule generate_songs_returned [OF b5])
  have r7: "returned (generate_recording_sessions e 150 s6)"
    by (rule generate_recording_sessions_calm(1) [OF all6])
  have r8: "returned (generate_staff e 40 s7)" by (rule generate_staff_calm(1) [OF calm])
  have r9: "returned (generate_engineers e 15 s8)"
    by (rule generate_engineers_calm(1) [OF t8])
  have r10: "returned (generate_managers e 10 s9)" by (rule generate_managers_calm(1))
  have r11: "returned (generate_distributions e 10 s10)"
    by (rule generate_distributions_calm(1) [OF calm])
  have pre: "returned (chain prefix s0) \<and> final (chain prefix s0) = s11"
    using r1 r2 r3 r4 r5 r6 r7 r8 r9 r10 r11
    by (simp add: prefix_def returned_seq final_seq folds)
  define keys where "keys = song_keys (db s11)"
  have e16: "extends s1 s6"
    using e2 e3 e4 e5 e6 by (blast intro: extends_trans)
  have e611: "extends s6 s11"
    using e7 e8 e9 e10 e11 by (blast intro: extends_trans)
  have dk: "distinct keys"
    using d1 e16 e611 by (simp add: keys_def extends_def)
  have al5: "album_ids s5 \<noteq> []" using b5 by (simp add: supplies_iff)
  obtain k0 k1 where k: "k0 \<noteq> k1" "k0 \<in> set (song_keys (db s6))"
      "k1 \<in> set (song_keys (db s6))"
    using generate_songs_two_keys [OF calm id al5, of 500] by (auto simp: s6_def)
  then have "{k0, k1} \<subseteq> set keys" using e611 by (auto simp: keys_def extends_def)
  then have "card {k0, k1} \<le> card (set keys)" by (intro card_mono) simp_all
  then have "2 \<le> card (set keys)" using k(1) by simp
  then have lk: "2 \<le> length keys" using card_length [of keys] by simp
  have di: "distribution_ids s11 \<noteq> []" using x11 by (simp add: supplies_iff)
  define P where "P = sent (chain prefix s0)"
  define rest where "rest = [PInt (pick (distribution_ids s11) (rand e (rand_calls s11))),
     PDate (date_between e 2 (faker e (fake_calls s11))),
     PStr (pick agreement_statuses (rand e (rand_calls s11 + 1)))]"
  have dec: "\<exists>R. sent (generate_all (e\<lparr>db_random := r\<rparr>) d)
           = P @ [SelectRandomSong,
                  Insert SongDistribution
                    (PInt (snd (keys ! (r (clock (db s11)) mod length keys)))
                     # PInt (fst (keys ! (r (clock (db s11)) mod length keys))) # rest)] @ R"
    for r
  proof -
    define e' where "e' = e\<lparr>db_random := r\<rparr>"
    define tl where "tl = [generate_song_distributions e' 300, generate_contracts e 50,
       generate_artist_albums e 150]"
    have g: "generate_all e' d = chain (prefix @ tl) s0"
      using con
      by (simp add: generate_all_def e'_def prefix_def tl_def s0_def clean_database_db_random
          generate_artists_db_random generate_producers_db_random generate_studios_db_random
          generate_albums_db_random generate_songs_db_random
          generate_recording_sessions_db_random generate_staff_db_random
          generate_engineers_db_random generate_managers_db_random
          generate_distributions_db_random generate_contracts_db_random
          generate_artist_albums_db_random)
    have a: "sent (generate_all e' d) = P @ sent (chain tl s11)"
      using pre by (simp add: g chain_append sent_seq P_def)
    obtain X where b: "sent (chain tl s11) = sent (generate_song_distributions e' 300 s11) @ X"
      by (simp add: tl_def sent_seq)
    have up: "[0..<300] = 0 # [1..<300]" by (simp add: upt_conv_Cons)
    obtain Y where c: "sent (generate_song_distributions e' 300 s11)
        = sent (song_distribution_step e' 0 s11) @ Y"
      by (simp add: generate_song_distributions_def up sent_seq del: upt_Suc)
    have nk: "song_keys (db s11) \<noteq> []" using lk by (auto simp: keys_def)
    have st: "sent (song_distribution_step e' 0 s11)
        = [SelectRandomSong,
           Insert SongDistribution
             (PInt (snd (keys ! (r (clock (db s11)) mod length keys)))
              # PInt (fst (keys ! (r (clock (db s11)) mod length keys))) # rest)]"
      using calm nk di
      by (simp add: song_distribution_step_eq e'_def keys_def rest_def date_between_db_random)
    show ?thesis
      unfolding e'_def [symmetric] by (rule exI [of _ "Y @ X"]) (simp add: a b c st)
  qed
  from dk lk dec show ?thesis by blast
qed

text \<open>
  C4, as the code has it. Two runs of \<open>generate_all\<close> from the same initial database
  state that draw the same values from the seeded generators (\<open>random\<close> and \<open>Faker\<close>), on
  the same day, with the same connection and the storage raising on the same statements,
  end the same way in the same state and send the same statements with the same values,
  but for the song and album of each SongDistribution row: that song is picked by the
  database's own \<open>RANDOM()\<close>, which the seed does not reach.
\<close>

theorem generate_all_deterministic_but_for_songs:
  assumes "rand e1 = rand e2" and "faker e1 = faker e2" and "today e1 = today e2"
    and "connects e1 = connects e2" and "raises e1 = raises e2"
  shows "same_but_songs (generate_all e1 d) (generate_all e2 d)"
proof -
  have "e1 = e2\<lparr>db_random := db_random e1\<rparr>"
    using assms by (cases e1, cases e2) simp
  then have "generate_all e1 d = generate_all (e2\<lparr>db_random := db_random e1\<rparr>) d"
    by simp
  then show ?thesis by (simp only: generate_all_db_random)
qed

theorem generate_all_deterministic_but_for_songs_witness:
  "db_random calm_other 0 \<noteq> db_random calm 0
   \<and> same_but_songs (generate_all calm_other empty_pg) (generate_all calm empty_pg)"
  using generate_all_deterministic_but_for_songs [of calm_other calm empty_pg]
  by (simp add: calm_other_def calm_def)

text \<open>
  The claim as stated fails. Two runs on the empty database with the same seeded draws,
  the same day and a storage that raises on nothing, in which \<open>RANDOM()\<close> gives 0 in the
  one and 1 in the other, send the same statements but for the songs of the song
  distributions, and do not send the same statements: the first SongDistribution row is
  attached to different songs.
\<close>

theorem song_of_song_distribution_not_seeded:
  "rand calm_other = rand calm \<and> faker calm_other = faker calm
   \<and> today calm_other = today calm \<and> raises calm_other = raises calm
   \<and> map without_song (sent (generate_all calm_other empty_pg))
       = map without_song (sent (generate_all calm empty_pg))
   \<and> sent (generate_all calm_other empty_pg) \<noteq> sent (generate_all calm empty_pg)"
proof -
  have c: "\<And>k. \<not> raises calm k" "connects calm" "rand calm = (\<lambda>k. k)"
    "distinct (song_keys empty_pg)"
    by (simp_all add: calm_def empty_pg_def)
  from calm_run_first_song_distribution [OF c]
  obtain P keys c rest where dk: "distinct keys" and lk: "2 \<le> length keys"
    and dec: "\<And>r. \<exists>R. sent (generate_all (calm\<lparr>db_random := r\<rparr>) empty_pg)
           = P @ [SelectRandomSong,
                  Insert SongDistribution
                    (PInt (snd (keys ! (r c mod length keys)))
                     # PInt (fst (keys ! (r c mod length keys))) # rest)] @ R"
    by blast
  have z: "calm\<lparr>db_random := (\<lambda>k. 0)\<rparr> = calm" by (simp add: calm_def)
  define j1 where "j1 = (1::nat) mod length keys"
  define j0 where "j0 = (0::nat) mod length keys"
  have j: "j1 = 1" "j0 = 0" using lk by (simp_all add: j1_def j0_def)
  from dec [of "\<lambda>k. 1"] obtain R1 where
    s1: "sent (generate_all (calm\<lparr>db_random := (\<lambda>k. 1)\<rparr>) empty_pg)
           = P @ [SelectRandomSong,
                  Insert SongDistribution
                    (PInt (snd (keys ! j1)) # PInt (fst (keys ! j1)) # rest)] @ R1"
    unfolding j1_def by blast
  from dec [of "\<lambda>k. 0"] obtain R0 where
    s0: "sent (generate_all calm empty_pg)
           = P @ [SelectRandomSong,
                  Insert SongDistribution
                    (PInt (snd (keys ! j0)) # PInt (fst (keys ! j0)) # rest)] @ R0"
    unfolding j0_def z by blast
  have "keys \<noteq> []" using lk by auto
  then have "keys ! j0 \<noteq> keys ! j1"
    using dk lk nth_eq_iff_index_eq [of keys 0 1] by (simp add: j)
  then have "snd (keys ! j1) \<noteq> snd (keys ! j0) \<or> fst (keys ! j1) \<noteq> fst (keys ! j0)"
    by (auto simp: prod_eq_iff)
  then have ne: "sent (generate_all calm_other empty_pg) \<noteq> sent (generate_all calm empty_pg)"
    unfolding calm_other_def s1 s0 by auto
  have "same_but_songs (generate_all (calm\<lparr>db_random := (\<lambda>k. 1)\<rparr>) empty_pg)
      (generate_all calm empty_pg)"
    by (rule generate_all_db_random)
  then have eq: "map without_song (sent (generate_all calm_other empty_pg))
       = map without_song (sent (generate_all calm empty_pg))"
    by (simp add: same_but_songs_def calm_other_def)
  from ne eq show ?thesis by (simp add: calm_other_def)
qed


end
